theory Spec2Isabelle
  imports Main "HOL-Library.Sublist" "HOL-Library.Word"
begin

section \<open>JavaScript values used by the sandbox\<close>

text \<open>
  Text is held as byte strings: a \<^typ>\<open>string\<close> stands for the UTF-8 encoding of the
  JavaScript string, which for ASCII text is the text itself. Where the source
  converts between a string and its bytes, and where it looks at single code units,
  the string is held as its code units instead (see the next section). Confidence
  scores are the integers the scorer adds up, so a JavaScript \<open>number\<close> holding a score
  is an \<^typ>\<open>int\<close>.
\<close>

definition digit_char :: "nat \<Rightarrow> char" where
  "digit_char d = char_of (48 + d)"

fun show_nat_fuel :: "nat \<Rightarrow> nat \<Rightarrow> string" where
  "show_nat_fuel 0 n = [digit_char (n mod 10)]"
| "show_nat_fuel (Suc k) n =
     (if n < 10 then [digit_char n] else show_nat_fuel k (n div 10) @ [digit_char (n mod 10)])"

text \<open>Decimal rendering of a template-string substitution \<open>${n}\<close> for an integer
  \<open>n\<close>; a number below \<open>10 ^ (k + 1)\<close> needs at most \<open>k\<close> divisions, so \<open>n\<close> itself
  is fuel enough.\<close>

definition show_nat :: "nat \<Rightarrow> string" where
  "show_nat n = show_nat_fuel n n"

definition show_int :: "int \<Rightarrow> string" where
  "show_int i = (if i < 0 then CHR ''-'' # show_nat (nat (- i)) else show_nat (nat i))"

section \<open>UTF-16 and UTF-8 (Buffer.from(s, 'utf8') and buf.toString('utf8'))\<close>

text \<open>A JavaScript string is a sequence of 16-bit code units.\<close>

type_synonym utf16 = "16 word list"

definition high_surrogate :: "nat \<Rightarrow> bool" where
  "high_surrogate u = (0xD800 \<le> u \<and> u < 0xDC00)"

definition low_surrogate :: "nat \<Rightarrow> bool" where
  "low_surrogate u = (0xDC00 \<le> u \<and> u < 0xE000)"

definition surrogate :: "nat \<Rightarrow> bool" where
  "surrogate u = (0xD800 \<le> u \<and> u < 0xE000)"

text \<open>The code points that \<open>Buffer.from(s, 'utf8')\<close> writes: a high surrogate followed
  by a low one is one code point, any other surrogate is written as U+FFFD.\<close>

fun code_points :: "nat list \<Rightarrow> nat list" where
  "code_points [] = []"
| "code_points [u] = [if surrogate u then 0xFFFD else u]"
| "code_points (u # v # r) =
     (if high_surrogate u \<and> low_surrogate v
      then (0x10000 + (u - 0xD800) * 1024 + (v - 0xDC00)) # code_points r
      else (if surrogate u then 0xFFFD else u) # code_points (v # r))"

definition utf8_of_point :: "nat \<Rightarrow> string" where
  "utf8_of_point n =
     (if n < 0x80 then [char_of n]
      else if n < 0x800 then [char_of (0xC0 + n div 64), char_of (0x80 + n mod 64)]
      else if n < 0x10000 then
        [char_of (0xE0 + n div 4096), char_of (0x80 + (n div 64) mod 64), char_of (0x80 + n mod 64)]
      else
        [char_of (0xF0 + n div 262144), char_of (0x80 + (n div 4096) mod 64),
         char_of (0x80 + (n div 64) mod 64), char_of (0x80 + n mod 64)])"

definition utf8_encode :: "utf16 \<Rightarrow> string" where
  "utf8_encode s = concat (map utf8_of_point (code_points (map unat s)))"

text \<open>The UTF-8 decoder replaces every ill-formed sequence by U+FFFD and goes on with
  the byte that did not fit. What is ill formed depends on the range of the byte after
  the lead byte, the parameter \<open>second\<close>. For \<open>buf.toString('utf8')\<close> that range is
  \<open>second_range\<close>, which excludes overlong forms, surrogates and code points above
  U+10FFFF.\<close>

definition trail :: "nat \<Rightarrow> bool" where
  "trail b = (0x80 \<le> b \<and> b \<le> 0xBF)"

definition second_range :: "nat \<Rightarrow> nat \<Rightarrow> bool" where
  "second_range lead b =
     (if lead = 0xE0 then 0xA0 \<le> b \<and> b \<le> 0xBF
      else if lead = 0xED then 0x80 \<le> b \<and> b \<le> 0x9F
      else if lead = 0xF0 then 0x90 \<le> b \<and> b \<le> 0xBF
      else if lead = 0xF4 then 0x80 \<le> b \<and> b \<le> 0x8F
      else trail b)"

fun decode_with :: "(nat \<Rightarrow> nat \<Rightarrow> bool) \<Rightarrow> nat list \<Rightarrow> nat list" where
  "decode_with second [] = []"
| "decode_with second (b # r) =
     (if b < 0x80 then b # decode_with second r
      else if 0xC2 \<le> b \<and> b \<le> 0xDF then
        (case r of
           [] \<Rightarrow> [0xFFFD]
         | b1 # r1 \<Rightarrow>
             if trail b1 then ((b - 0xC0) * 64 + (b1 - 0x80)) # decode_with second r1
             else 0xFFFD # decode_with second r)
      else if 0xE0 \<le> b \<and> b \<le> 0xEF then
        (case r of
           [] \<Rightarrow> [0xFFFD]
         | b1 # r1 \<Rightarrow>
             if second b b1 then
               (case r1 of
                  [] \<Rightarrow> [0xFFFD]
                | b2 # r2 \<Rightarrow>
                    if trail b2
                    then ((b - 0xE0) * 4096 + (b1 - 0x80) * 64 + (b2 - 0x80)) # decode_with second r2
                    else 0xFFFD # decode_with second r1)
             else 0xFFFD # decode_with second r)
      else if 0xF0 \<le> b \<and> b \<le> 0xF4 then
        (case r of
           [] \<Rightarrow> [0xFFFD]
         | b1 # r1 \<Rightarrow>
             if second b b1 then
               (case r1 of
                  [] \<Rightarrow> [0xFFFD]
                | b2 # r2 \<Rightarrow>
                    if trail b2 then
                      (case r2 of
                         [] \<Rightarrow> [0xFFFD]
                       | b3 # r3 \<Rightarrow>
                           if trail b3
                           then ((b - 0xF0) * 262144 + (b1 - 0x80) * 4096 + (b2 - 0x80) * 64
                                 + (b3 - 0x80)) # decode_with second r3
                           else 0xFFFD # decode_with second r2)
                    else 0xFFFD # decode_with second r1)
             else 0xFFFD # decode_with second r)
      else 0xFFFD # decode_with second r)"


definition decode_bytes :: "nat list \<Rightarrow> nat list" where
  "decode_bytes = decode_with second_range"

definition units_of_point :: "nat \<Rightarrow> nat list" where
  "units_of_point n =
     (if n < 0x10000 then [n]
      else [0xD800 + (n - 0x10000) div 1024, 0xDC00 + (n - 0x10000) mod 1024])"

definition utf8_decode :: "string \<Rightarrow> utf16" where
  "utf8_decode s = map of_nat (concat (map units_of_point (decode_bytes (map of_char s))))"

text \<open>The code units of a string that is held by its bytes, for the code that looks
  at single code units. A surrogate that JSON text writes as \<open>\uXXXX\<close> is held by the
  three bytes of its own value; \<open>loose_second\<close> lets the decoder take those as they
  are.\<close>

definition loose_second :: "nat \<Rightarrow> nat \<Rightarrow> bool" where
  "loose_second lead b =
     (if lead = 0xE0 then 0xA0 \<le> b \<and> b \<le> 0xBF
      else if lead = 0xF0 then 0x90 \<le> b \<and> b \<le> 0xBF
      else if lead = 0xF4 then 0x80 \<le> b \<and> b \<le> 0x8F
      else trail b)"

definition code_units :: "string \<Rightarrow> nat list" where
  "code_units s = concat (map units_of_point (decode_with loose_second (map of_char s)))"

text \<open>Text that is read from bytes and held by its bytes again: the string that
  \<open>toString('utf8')\<close> makes of the bytes, encoded. These are the bytes themselves when
  they are well-formed UTF-8; every ill-formed sequence has become U+FFFD.\<close>

definition utf8_text :: "string \<Rightarrow> string" where
  "utf8_text b = utf8_encode (utf8_decode b)"

section \<open>Node's POSIX path module\<close>

text \<open>
  \<open>path.join\<close>, \<open>path.resolve\<close>, \<open>path.relative\<close>, \<open>path.dirname\<close> and
  \<open>path.extname\<close> belong to the platform, not to the repository. They are modelled
  after Node's POSIX implementation, segment by segment where Node works character
  by character.
\<close>

fun split_on :: "char \<Rightarrow> string \<Rightarrow> string list" where
  "split_on d [] = [[]]"
| "split_on d (c # cs) =
     (if c = d then [] # split_on d cs
      else (case split_on d cs of [] \<Rightarrow> [[c]] | w # ws \<Rightarrow> (c # w) # ws))"

fun join_with :: "string \<Rightarrow> string list \<Rightarrow> string" where
  "join_with sep [] = []"
| "join_with sep [x] = x"
| "join_with sep (x # y # ys) = x @ sep @ join_with sep (y # ys)"

text \<open>\<open>normalizeString\<close>: empty and \<open>.\<close> segments are dropped, a \<open>..\<close> removes the
  segment before it unless there is none or it is itself \<open>..\<close>; in that case \<open>..\<close> is
  kept when \<open>allowAboveRoot\<close> holds and dropped otherwise. The accumulator holds the
  result so far, last segment first.\<close>

fun normalize_segs :: "bool \<Rightarrow> string list \<Rightarrow> string list \<Rightarrow> string list" where
  "normalize_segs allow acc [] = rev acc"
| "normalize_segs allow acc (s # ss) =
     (if s = [] \<or> s = ''.'' then normalize_segs allow acc ss
      else if s = ''..'' then
        (case acc of
           [] \<Rightarrow> normalize_segs allow (if allow then [''..''] else []) ss
         | a # as \<Rightarrow>
             if a = ''..'' then normalize_segs allow (if allow then ''..'' # acc else acc) ss
             else normalize_segs allow as ss)
      else normalize_segs allow (s # acc) ss)"

definition normalizeString :: "string \<Rightarrow> bool \<Rightarrow> string" where
  "normalizeString path allowAboveRoot =
     join_with ''/'' (normalize_segs allowAboveRoot [] (split_on CHR ''/'' path))"

definition isAbsolute :: "string \<Rightarrow> bool" where
  "isAbsolute path = (case path of [] \<Rightarrow> False | c # _ \<Rightarrow> c = CHR ''/'')"

definition normalize :: "string \<Rightarrow> string" where
  "normalize path =
     (if path = [] then ''.''
      else
        let trailingSeparator = (last path = CHR ''/'');
            p = normalizeString path (\<not> isAbsolute path)
        in if p = [] then (if isAbsolute path then ''/'' else if trailingSeparator then ''./'' else ''.'')
           else (if isAbsolute path then ''/'' else []) @ p @ (if trailingSeparator then ''/'' else []))"

definition join :: "string list \<Rightarrow> string" where
  "join args =
     (case filter (\<lambda>a. a \<noteq> []) args of
        [] \<Rightarrow> ''.''
      | parts \<Rightarrow> normalize (join_with ''/'' parts))"

text \<open>\<open>path.resolve(p)\<close> with one argument; \<open>cwd\<close> is \<open>process.cwd()\<close>, an absolute path.
  The segments of the result are kept apart so that \<open>relative\<close> can compare them.\<close>

definition resolve_segs :: "string \<Rightarrow> string \<Rightarrow> string list" where
  "resolve_segs cwd p =
     normalize_segs False []
       (split_on CHR ''/'' (if p = [] then cwd @ ''/''
                           else if isAbsolute p then p @ ''/''
                           else cwd @ ''/'' @ p @ ''/''))"

definition resolve :: "string \<Rightarrow> string \<Rightarrow> string" where
  "resolve cwd p = CHR ''/'' # join_with ''/'' (resolve_segs cwd p)"

fun common_prefix_len :: "string list \<Rightarrow> string list \<Rightarrow> nat" where
  "common_prefix_len (x # xs) (y # ys) = (if x = y then Suc (common_prefix_len xs ys) else 0)"
| "common_prefix_len _ _ = 0"

text \<open>\<open>path.relative(from, to)\<close>: both arguments are resolved, the common leading
  segments are dropped, and one \<open>..\<close> is written for every remaining segment of
  \<open>from\<close>.\<close>

definition relative :: "string \<Rightarrow> string \<Rightarrow> string \<Rightarrow> string" where
  "relative cwd from to =
     (let f = resolve_segs cwd from;
          t = resolve_segs cwd to;
          k = common_prefix_len f t
      in join_with ''/'' (replicate (length f - k) ''..'' @ drop k t))"

text \<open>\<open>path.dirname\<close>: trailing slashes and the last name are dropped; the slash
  before that name ends the result. The slash at index 0 is not looked at by Node's
  loop, which gives \<open>/\<close> or \<open>.\<close> then.\<close>

definition dirname :: "string \<Rightarrow> string" where
  "dirname path =
     (if path = [] then ''.''
      else
        let hasRoot = (hd path = CHR ''/'');
            r = dropWhile (\<lambda>c. c \<noteq> CHR ''/'') (dropWhile (\<lambda>c. c = CHR ''/'') (rev path))
        in if length r \<le> 1 then (if hasRoot then ''/'' else ''.'')
           else if hasRoot \<and> length r = 2 then ''//''
           else take (length r - 1) path)"

definition basename_of :: "string \<Rightarrow> string" where
  "basename_of path =
     rev (takeWhile (\<lambda>c. c \<noteq> CHR ''/'') (dropWhile (\<lambda>c. c = CHR ''/'') (rev path)))"

text \<open>\<open>path.extname\<close>: the part of the last name from its last dot on; empty when
  there is no dot, when the dot opens the name, and for the name \<open>..\<close>.\<close>

definition extname :: "string \<Rightarrow> string" where
  "extname path =
     (let b = basename_of path;
          afterDot = takeWhile (\<lambda>c. c \<noteq> CHR ''.'') (rev b)
      in if CHR ''.'' \<notin> set b then []
         else if length afterDot + 1 = length b then []
         else if b = ''..'' then []
         else CHR ''.'' # rev afterDot)"

definition toLowerCase_char :: "char \<Rightarrow> char" where
  "toLowerCase_char c =
     (let n = (of_char c :: int) in if 65 \<le> n \<and> n \<le> 90 then char_of (n + 32) else c)"

definition toUpperCase_char :: "char \<Rightarrow> char" where
  "toUpperCase_char c =
     (let n = (of_char c :: int) in if 97 \<le> n \<and> n \<le> 122 then char_of (n - 32) else c)"

text \<open>\<open>String.prototype.toLowerCase\<close> on UTF-8 text. The letters \<open>A\<close> to \<open>Z\<close> are
  mapped, and the Kelvin sign U+212A (the bytes \<open>E2 84 AA\<close>) becomes \<open>k\<close>. Every other
  character outside ASCII is left as it is where the platform may write another
  character outside ASCII: the source compares the results with ASCII names only, so
  this shows in nothing but the text of a message that quotes the extension.\<close>

fun toLowerCase :: "string \<Rightarrow> string" where
  "toLowerCase (a # b # c # s) =
     (if a = CHR 0xE2 \<and> b = CHR 0x84 \<and> c = CHR 0xAA then CHR ''k'' # toLowerCase s
      else toLowerCase_char a # toLowerCase (b # c # s))"
| "toLowerCase s = map toLowerCase_char s"

definition toUpperCase :: "string \<Rightarrow> string" where
  "toUpperCase s = map toUpperCase_char s"

definition startsWith :: "string \<Rightarrow> string \<Rightarrow> bool" where
  "startsWith s p = (take (length p) s = p)"

definition endsWith :: "string \<Rightarrow> string \<Rightarrow> bool" where
  "endsWith s p = (length p \<le> length s \<and> drop (length s - length p) s = p)"

fun includes_str :: "string \<Rightarrow> string \<Rightarrow> bool" where
  "includes_str [] p = (p = [])"
| "includes_str (c # cs) p = (startsWith (c # cs) p \<or> includes_str cs p)"

section \<open>The file system\<close>

text \<open>
  A file holds bytes. Files and directories are stored under their absolute path, and
  the root directory always exists. There are no symbolic links. The \<open>fs\<close> calls of
  the source become functions that return the error they would throw, and the calls
  that write return the file system they leave as well.
\<close>

datatype node = File string | Dir

type_synonym filesystem = "string \<rightharpoonup> node"

datatype fs_error = ENOENT | EISDIR | ENOTDIR | EEXIST | EACCES | EIO

text \<open>What can go wrong at a path for reasons outside the program: the call is
  refused (permissions, a read-only disk), or a write stops after some bytes (a full
  disk, an I/O error).\<close>

datatype fault = Refused | Short nat

text \<open>What the program takes from outside: the working directory, the faults of the
  disk, the verdicts of the TypeScript compiler (the number of diagnostics, or nothing
  when the compiler cannot be loaded), of \<open>vm.Script\<close> and of the Python parser, and
  the clock read by \<open>new Date()\<close>.\<close>

record env =
  cwd :: string
  fault :: "string \<Rightarrow> fault option"
  ts_diagnostics :: "string \<Rightarrow> nat option"
  js_parses :: "string \<Rightarrow> bool"
  python_parses :: "string \<Rightarrow> bool"
  clock :: nat

definition path_of :: "string list \<Rightarrow> string" where
  "path_of segs = CHR ''/'' # join_with ''/'' segs"

definition node_at :: "filesystem \<Rightarrow> string list \<Rightarrow> node option" where
  "node_at fs segs = (if segs = [] then Some Dir else fs (path_of segs))"

definition files_of :: "filesystem \<Rightarrow> string \<rightharpoonup> string" where
  "files_of fs p = (case fs p of Some (File c) \<Rightarrow> Some c | _ \<Rightarrow> None)"

text \<open>The operating system follows a path component by component. Before every
  component, also an empty one, \<open>.\<close> and \<open>..\<close>, the place reached so far must be a
  directory; so \<open>a.txt/\<close> and \<open>a.txt/..\<close> are errors when \<open>a.txt\<close> is a file, where
  \<open>path.resolve\<close> would drop the slash and the two segments. The place that the last
  component names need not exist.\<close>

fun walk :: "filesystem \<Rightarrow> string list \<Rightarrow> string list \<Rightarrow> fs_error + string list" where
  "walk fs at [] = Inr at"
| "walk fs at (c # cs) =
     (case node_at fs at of
        None \<Rightarrow> Inl ENOENT
      | Some (File _) \<Rightarrow> Inl ENOTDIR
      | Some Dir \<Rightarrow>
          walk fs (if c = [] \<or> c = ''.'' then at
                   else if c = ''..'' then butlast at
                   else at @ [c]) cs)"

definition locate :: "env \<Rightarrow> filesystem \<Rightarrow> string \<Rightarrow> fs_error + string list" where
  "locate e fs p =
     (if p = [] then Inl ENOENT
      else walk fs (if isAbsolute p then [] else resolve_segs (cwd e) [])
             (split_on CHR ''/'' p))"

definition statSync :: "env \<Rightarrow> filesystem \<Rightarrow> string \<Rightarrow> fs_error + node" where
  "statSync e fs p =
     (case locate e fs p of
        Inl err \<Rightarrow> Inl err
      | Inr segs \<Rightarrow> (case node_at fs segs of None \<Rightarrow> Inl ENOENT | Some n \<Rightarrow> Inr n))"

text \<open>\<open>existsSync\<close> answers \<open>false\<close> for every error.\<close>

definition existsSync :: "env \<Rightarrow> filesystem \<Rightarrow> string \<Rightarrow> bool" where
  "existsSync e fs p = (case statSync e fs p of Inl _ \<Rightarrow> False | Inr _ \<Rightarrow> True)"

text \<open>\<open>readFileSync(p, 'utf8')\<close>: the bytes of the file, decoded. A fault of the disk at
  the file makes the call fail.\<close>

definition readFileSync :: "env \<Rightarrow> filesystem \<Rightarrow> string \<Rightarrow> fs_error + string" where
  "readFileSync e fs p =
     (case locate e fs p of
        Inl err \<Rightarrow> Inl err
      | Inr segs \<Rightarrow>
          (case node_at fs segs of
             None \<Rightarrow> Inl ENOENT
           | Some Dir \<Rightarrow> Inl EISDIR
           | Some (File bytes) \<Rightarrow>
               (case fault e (path_of segs) of
                  None \<Rightarrow> Inr (utf8_text bytes)
                | Some Refused \<Rightarrow> Inl EACCES
                | Some (Short _) \<Rightarrow> Inl EIO)))"

text \<open>\<open>mkdirSync(p, {recursive: true})\<close>: every missing directory on the way to \<open>p\<close> is
  created, outermost first. A file in the way is an error, and so is a fault of the
  disk at a directory that is to be created; the directories created before stay.\<close>

fun mkdir_chain ::
  "env \<Rightarrow> filesystem \<Rightarrow> string list \<Rightarrow> string list \<Rightarrow> (fs_error + unit) \<times> filesystem" where
  "mkdir_chain e fs at [] = (Inr (), fs)"
| "mkdir_chain e fs at (c # cs) =
     (if c = [] \<or> c = ''.'' then mkdir_chain e fs at cs
      else if c = ''..'' then mkdir_chain e fs (butlast at) cs
      else
        (case node_at fs (at @ [c]) of
           Some Dir \<Rightarrow> mkdir_chain e fs (at @ [c]) cs
         | Some (File _) \<Rightarrow>
             (Inl (if list_all (\<lambda>d. d = [] \<or> d = ''.'') cs then EEXIST else ENOTDIR), fs)
         | None \<Rightarrow>
             (case fault e (path_of (at @ [c])) of
                Some _ \<Rightarrow> (Inl EACCES, fs)
              | None \<Rightarrow> mkdir_chain e (fs(path_of (at @ [c]) \<mapsto> Dir)) (at @ [c]) cs)))"

definition mkdirSync_recursive ::
  "env \<Rightarrow> filesystem \<Rightarrow> string \<Rightarrow> (fs_error + unit) \<times> filesystem" where
  "mkdirSync_recursive e fs p =
     (if p = [] then (Inl ENOENT, fs)
      else mkdir_chain e fs (if isAbsolute p then [] else resolve_segs (cwd e) [])
             (split_on CHR ''/'' p))"

text \<open>\<open>writeFileSync(p, content, 'utf8')\<close> opens the file, creating it or cutting it to
  length 0, and then writes the bytes of the content. When the open is refused nothing
  has changed; when the write stops short the file is left with the bytes written so
  far.\<close>

definition writeFileSync ::
  "env \<Rightarrow> filesystem \<Rightarrow> string \<Rightarrow> string \<Rightarrow> (fs_error + unit) \<times> filesystem" where
  "writeFileSync e fs p content =
     (case locate e fs p of
        Inl err \<Rightarrow> (Inl err, fs)
      | Inr segs \<Rightarrow>
          (case node_at fs segs of
             Some Dir \<Rightarrow> (Inl EISDIR, fs)
           | _ \<Rightarrow>
              if node_at fs (butlast segs) \<noteq> Some Dir then (Inl ENOENT, fs)
              else
                (case fault e (path_of segs) of
                   Some Refused \<Rightarrow> (Inl EACCES, fs)
                 | Some (Short k) \<Rightarrow> (Inl EIO, fs(path_of segs \<mapsto> File (take k content)))
                 | None \<Rightarrow> (Inr (), fs(path_of segs \<mapsto> File content)))))"

text \<open>What a \<open>catch\<close> clause receives: an \<open>Error\<close> made by the program, or the error of
  a call of \<open>fs\<close>.\<close>

datatype exn = Error string | SystemError fs_error

section \<open>The deployment gate (sandbox-manager.ts, SandboxManager.checkDeploymentPermission)\<close>

text \<open>The \<open>action\<close> field of \<open>DeploymentDecision\<close> in the type declarations:
  \<open>'auto-deploy' | 'request-review' | 'continue-sandbox-testing' | 'blocked'\<close>.\<close>

datatype action = AutoDeploy | RequestReview | ContinueSandboxTesting | Blocked

record ReviewData =
  rd_confidence :: int
  risks :: "string list"
  improvements :: "string list"
  similarImplementations :: "string list"

record DeploymentDecision =
  allowed :: bool
  reason :: string
  action :: action
  reviewData :: "ReviewData option"
  suggestions :: "string list option"

text \<open>The three marks that open the reason strings, as UTF-8 bytes:
  U+2705, U+26A0 U+FE0F and U+274C.\<close>

definition mark_check :: string where
  "mark_check = [CHR 0xE2, CHR 0x9C, CHR 0x85]"

definition mark_warning :: string where
  "mark_warning = [CHR 0xE2, CHR 0x9A, CHR 0xA0, CHR 0xEF, CHR 0xB8, CHR 0x8F]"

definition mark_cross :: string where
  "mark_cross = [CHR 0xE2, CHR 0x9D, CHR 0x8C]"

text \<open>
  The body of the method is wrapped in \<open>try\<close>/\<open>catch\<close>, and the handler returns the only
  decision whose action is \<open>'blocked'\<close>. Nothing inside the \<open>try\<close> can throw (two
  comparisons and three object literals), so the handler has no branch in the model.
  The file path is ignored by the source as well.
\<close>

definition checkDeploymentPermission :: "string \<Rightarrow> int \<Rightarrow> DeploymentDecision" where
  "checkDeploymentPermission filePath confidence =
     (if confidence \<ge> 95 then
        \<lparr> allowed = True,
          reason = mark_check @ '' High confidence ('' @ show_int confidence
                     @ ''%) - deploying to real files'',
          action = AutoDeploy,
          reviewData = None,
          suggestions = None \<rparr>
      else if confidence \<ge> 70 then
        \<lparr> allowed = False,
          reason = mark_warning @ '' Medium confidence ('' @ show_int confidence
                     @ ''%) - requires human review'',
          action = RequestReview,
          reviewData = Some \<lparr> rd_confidence = confidence,
                              risks = [''Medium confidence score''],
                              improvements = [''Increase test coverage'', ''Add more validation''],
                              similarImplementations = [] \<rparr>,
          suggestions = None \<rparr>
      else
        \<lparr> allowed = False,
          reason = mark_cross @ '' Low confidence ('' @ show_int confidence
                     @ ''%) - needs more testing'',
          action = ContinueSandboxTesting,
          reviewData = None,
          suggestions = Some [''Add more comprehensive tests'', ''Improve code quality'',
                              ''Follow established patterns'', ''Add error handling''] \<rparr>)"

section \<open>The confidence calculator (sandbox-manager.ts, class ConfidenceCalculator)\<close>

record ConfidenceMetrics =
  syntaxValidation :: int
  testExecution :: int
  patternAlignment :: int
  memoryConsistency :: int
  riskAssessment :: int
  performanceImpact :: int

definition validateTypeScript :: "env \<Rightarrow> string \<Rightarrow> int" where
  "validateTypeScript e code =
     (case ts_diagnostics e code of
        None \<Rightarrow> 0
      | Some errorCount \<Rightarrow> max 0 (20 - int errorCount * 3))"

definition validateJavaScript :: "env \<Rightarrow> string \<Rightarrow> int" where
  "validateJavaScript e code = (if js_parses e code then 18 else 0)"

definition validatePython :: "env \<Rightarrow> string \<Rightarrow> int" where
  "validatePython e code = (if python_parses e code then 20 else 0)"

text \<open>\<open>String.prototype.trim\<close> removes white space and line terminators from both
  ends: the six ASCII characters, U+00A0, U+1680, U+2000 to U+200A, U+2028, U+2029,
  U+202F, U+205F, U+3000 and U+FEFF. \<open>white_space\<close> lists their UTF-8 bytes; \<open>strip\<close>
  removes them from the front as long as one is there.\<close>

definition white_space :: "string list" where
  "white_space =
     [[CHR 0x09], [CHR 0x0A], [CHR 0x0B], [CHR 0x0C], [CHR 0x0D], [CHR 0x20],
      [CHR 0xC2, CHR 0xA0], [CHR 0xE1, CHR 0x9A, CHR 0x80],
      [CHR 0xE2, CHR 0x80, CHR 0x80], [CHR 0xE2, CHR 0x80, CHR 0x81],
      [CHR 0xE2, CHR 0x80, CHR 0x82], [CHR 0xE2, CHR 0x80, CHR 0x83],
      [CHR 0xE2, CHR 0x80, CHR 0x84], [CHR 0xE2, CHR 0x80, CHR 0x85],
      [CHR 0xE2, CHR 0x80, CHR 0x86], [CHR 0xE2, CHR 0x80, CHR 0x87],
      [CHR 0xE2, CHR 0x80, CHR 0x88], [CHR 0xE2, CHR 0x80, CHR 0x89],
      [CHR 0xE2, CHR 0x80, CHR 0x8A], [CHR 0xE2, CHR 0x80, CHR 0xA8],
      [CHR 0xE2, CHR 0x80, CHR 0xA9], [CHR 0xE2, CHR 0x80, CHR 0xAF],
      [CHR 0xE2, CHR 0x81, CHR 0x9F], [CHR 0xE3, CHR 0x80, CHR 0x80],
      [CHR 0xEF, CHR 0xBB, CHR 0xBF]]"

function strip :: "string list \<Rightarrow> string \<Rightarrow> string" where
  "strip ws s =
     (case find (\<lambda>w. w \<noteq> [] \<and> startsWith s w) ws of
        None \<Rightarrow> s
      | Some w \<Rightarrow> strip ws (drop (length w) s))"
  by pat_completeness auto

termination
proof (relation "measure (\<lambda>(ws, s). length s)")
  show "wf (measure (\<lambda>(ws, s). length s))" by simp
next
  fix ws :: "string list" and s w :: string
  assume "find (\<lambda>w. w \<noteq> [] \<and> startsWith s w) ws = Some w"
  then have "w \<noteq> []" and "startsWith s w" by (auto simp: find_Some_iff)
  then have "s \<noteq> []" by (auto simp: startsWith_def)
  then show "((ws, drop (length w) s), (ws, s)) \<in> measure (\<lambda>(ws, s). length s)"
    using \<open>w \<noteq> []\<close> by simp
qed

declare strip.simps [simp del]

definition trim :: "string \<Rightarrow> string" where
  "trim s = rev (strip (map rev white_space) (rev (strip white_space s)))"

text \<open>\<open>code || readFileSync(filePath, 'utf8')\<close>: an absent and an empty \<open>code\<close> both
  read the file, at the path as given (so relative to the working directory). Any
  exception makes the score 0.\<close>

definition validateSyntax :: "env \<Rightarrow> filesystem \<Rightarrow> string \<Rightarrow> string option \<Rightarrow> int" where
  "validateSyntax e fs filePath code =
     (let ext = toLowerCase (extname filePath);
          content = (case code of
                       None \<Rightarrow> readFileSync e fs filePath
                     | Some c \<Rightarrow> if c \<noteq> [] then Inr c else readFileSync e fs filePath)
      in case content of
           Inl _ \<Rightarrow> 0
         | Inr c \<Rightarrow>
             if ext = ''.ts'' \<or> ext = ''.tsx'' then validateTypeScript e c
             else if ext = ''.js'' \<or> ext = ''.jsx'' then validateJavaScript e c
             else if ext = ''.py'' then validatePython e c
             else if length (trim c) > 0 then 15 else 0)"

text \<open>\<open>filePath.replace(/\.(ts|js|tsx|jsx)$/, '')\<close>: the pattern is anchored at the end,
  so it removes one of four suffixes.\<close>

definition strip_source_ext :: "string \<Rightarrow> string" where
  "strip_source_ext p =
     (if endsWith p ''.ts'' \<or> endsWith p ''.js'' then take (length p - 3) p
      else if endsWith p ''.tsx'' \<or> endsWith p ''.jsx'' then take (length p - 4) p
      else p)"

definition findTestFile :: "env \<Rightarrow> filesystem \<Rightarrow> string \<Rightarrow> string \<Rightarrow> string option" where
  "findTestFile e fs projectPath filePath =
     (let baseName = strip_source_ext filePath;
          testPatterns = [baseName @ ''.test.ts'', baseName @ ''.test.js'',
                          baseName @ ''.spec.ts'', baseName @ ''.spec.js'',
                          ''__tests__/'' @ baseName @ ''.test.ts'',
                          ''__tests__/'' @ baseName @ ''.test.js'']
      in find (\<lambda>pattern. existsSync e fs (join [projectPath, pattern])) testPatterns)"

definition runTests :: "env \<Rightarrow> filesystem \<Rightarrow> string \<Rightarrow> string \<Rightarrow> int" where
  "runTests e fs projectPath filePath =
     (case findTestFile e fs projectPath filePath of None \<Rightarrow> 15 | Some _ \<Rightarrow> 20)"

definition checkPatternAlignment :: int where
  "checkPatternAlignment = 15"

definition checkMemoryConsistency :: int where
  "checkMemoryConsistency = 12"

definition assessRisk :: int where
  "assessRisk = 8"

definition assessPerformance :: int where
  "assessPerformance = 9"

text \<open>\<open>ConfidenceCalculator.calculateConfidence\<close>. Each of the six steps catches its
  own exceptions, so the outer handler never runs.\<close>

definition calculateConfidence_metrics ::
  "env \<Rightarrow> filesystem \<Rightarrow> string \<Rightarrow> string \<Rightarrow> string option \<Rightarrow> ConfidenceMetrics" where
  "calculateConfidence_metrics e fs projectPath filePath code =
     \<lparr> syntaxValidation = validateSyntax e fs filePath code,
       testExecution = runTests e fs projectPath filePath,
       patternAlignment = checkPatternAlignment,
       memoryConsistency = checkMemoryConsistency,
       riskAssessment = assessRisk,
       performanceImpact = assessPerformance \<rparr>"

section \<open>The sandbox manager (sandbox-manager.ts, class SandboxManager)\<close>

record SandboxManager =
  projectPath :: string
  sandboxPath :: string

definition new_SandboxManager :: "string \<Rightarrow> SandboxManager" where
  "new_SandboxManager p = \<lparr> projectPath = p, sandboxPath = join [p, ''.sentvibe'', ''sandbox''] \<rparr>"

text \<open>\<open>Object.values(metrics).reduce((sum, score) => sum + score, 0)\<close>.\<close>

definition calculateTotalConfidence :: "ConfidenceMetrics \<Rightarrow> int" where
  "calculateTotalConfidence m =
     foldl (\<lambda>sum score. sum + score) 0
       [syntaxValidation m, testExecution m, patternAlignment m,
        memoryConsistency m, riskAssessment m, performanceImpact m]"

definition getEmptyMetrics :: ConfidenceMetrics where
  "getEmptyMetrics =
     \<lparr> syntaxValidation = 0, testExecution = 0, patternAlignment = 0,
       memoryConsistency = 0, riskAssessment = 0, performanceImpact = 0 \<rparr>"

text \<open>The placeholder metrics of \<open>runTests\<close>, \<open>executeCommand\<close> and \<open>runValidation\<close>.\<close>

definition calculateConfidenceMetrics :: ConfidenceMetrics where
  "calculateConfidenceMetrics =
     \<lparr> syntaxValidation = 20, testExecution = 23, patternAlignment = 18,
       memoryConsistency = 14, riskAssessment = 9, performanceImpact = 10 \<rparr>"

text \<open>\<open>getSandboxFiles\<close> returns the empty array, so \<open>calculateProjectConfidence\<close>
  returns 0 before its loop.\<close>

definition calculateProjectConfidence :: int where
  "calculateProjectConfidence = 0"

definition calculateConfidence ::
  "env \<Rightarrow> filesystem \<Rightarrow> SandboxManager \<Rightarrow> string option \<Rightarrow> int" where
  "calculateConfidence e fs m filePath =
     (case filePath of
        None \<Rightarrow> calculateProjectConfidence
      | Some p \<Rightarrow>
          if p = [] then calculateProjectConfidence
          else calculateTotalConfidence (calculateConfidence_metrics e fs (projectPath m) p None))"

text \<open>The body of the \<open>try\<close> block of \<open>deployToRealFiles\<close>: its boolean, or the
  exception that reaches the \<open>catch\<close> clause, and the file system it leaves.\<close>

definition deploy_attempt ::
  "env \<Rightarrow> filesystem \<Rightarrow> SandboxManager \<Rightarrow> string \<Rightarrow> bool \<Rightarrow> (exn + bool) \<times> filesystem" where
  "deploy_attempt e fs m filePath force =
     (let sandboxFilePath = join [sandboxPath m, filePath];
          realFilePath = join [projectPath m, filePath]
      in if \<not> existsSync e fs sandboxFilePath
         then (Inl (Error (''File not found in sandbox: '' @ filePath)), fs)
         else if \<not> force \<and>
                 \<not> allowed (checkDeploymentPermission filePath
                               (calculateConfidence e fs m (Some filePath)))
         then (Inr False, fs)
         else
           (case readFileSync e fs sandboxFilePath of
              Inl err \<Rightarrow> (Inl (SystemError err), fs)
            | Inr content \<Rightarrow>
                let realFileDir = dirname realFilePath in
                (case (if \<not> existsSync e fs realFileDir
                       then mkdirSync_recursive e fs realFileDir else (Inr (), fs)) of
                   (Inl err, fs1) \<Rightarrow> (Inl (SystemError err), fs1)
                 | (Inr _, fs1) \<Rightarrow>
                     (case writeFileSync e fs1 realFilePath content of
                        (Inl err, fs2) \<Rightarrow> (Inl (SystemError err), fs2)
                      | (Inr _, fs2) \<Rightarrow> (Inr True, fs2)))))"

text \<open>\<open>deployToRealFiles\<close>: the \<open>catch\<close> clause turns every exception of the body into
  \<open>false\<close>. The result is the value of the promise, or the exception that rejects it,
  and the file system.\<close>

definition deployToRealFiles ::
  "env \<Rightarrow> filesystem \<Rightarrow> SandboxManager \<Rightarrow> string \<Rightarrow> bool \<Rightarrow> (exn + bool) \<times> filesystem" where
  "deployToRealFiles e fs m filePath force =
     (case deploy_attempt e fs m filePath force of
        (Inl _, fs1) \<Rightarrow> (Inr False, fs1)
      | (Inr b, fs1) \<Rightarrow> (Inr b, fs1))"

section \<open>The file system proxy (sandbox-manager.ts, class FileSystemProxy)\<close>

record op_entry =
  operation :: string
  op_path :: string
  timestamp :: nat
  success :: bool

record FileSystemProxy =
  sandboxRoot :: string
  projectRoot :: string
  interceptedOperations :: "op_entry list"

definition new_FileSystemProxy :: "SandboxManager \<Rightarrow> FileSystemProxy" where
  "new_FileSystemProxy m =
     \<lparr> sandboxRoot = sandboxPath m, projectRoot = projectPath m, interceptedOperations = [] \<rparr>"

definition logOperation :: "env \<Rightarrow> FileSystemProxy \<Rightarrow> string \<Rightarrow> string \<Rightarrow> bool \<Rightarrow> FileSystemProxy" where
  "logOperation e px opn path ok =
     px\<lparr> interceptedOperations := interceptedOperations px @
           [\<lparr> operation = opn, op_path = path, timestamp = clock e, success = ok \<rparr>] \<rparr>"

definition mapToSandbox :: "env \<Rightarrow> FileSystemProxy \<Rightarrow> string \<Rightarrow> string" where
  "mapToSandbox e px originalPath =
     (let relativePath = (if startsWith originalPath (projectRoot px)
                          then relative (cwd e) (projectRoot px) originalPath
                          else originalPath)
      in join [sandboxRoot px, relativePath])"

text \<open>\<open>writeFile\<close>: the \<open>catch\<close> clause logs the failure and throws the exception
  again. The result is the exception that rejects the promise (or none), the proxy
  with its log, and the file system.\<close>

definition writeFile ::
  "env \<Rightarrow> filesystem \<Rightarrow> FileSystemProxy \<Rightarrow> string \<Rightarrow> string
     \<Rightarrow> (exn + unit) \<times> FileSystemProxy \<times> filesystem" where
  "writeFile e fs px path content =
     (let sandboxFile = mapToSandbox e px path;
          sandboxDir = dirname sandboxFile
      in case (if \<not> existsSync e fs sandboxDir
               then mkdirSync_recursive e fs sandboxDir else (Inr (), fs)) of
           (Inl err, fs1) \<Rightarrow> (Inl (SystemError err), logOperation e px ''write'' path False, fs1)
         | (Inr _, fs1) \<Rightarrow>
             (case writeFileSync e fs1 sandboxFile content of
                (Inl err, fs2) \<Rightarrow>
                  (Inl (SystemError err), logOperation e px ''write'' path False, fs2)
              | (Inr _, fs2) \<Rightarrow> (Inr (), logOperation e px ''write'' path True, fs2)))"

section \<open>File access control (memory.ts, class FileAccessControl)\<close>

record FileAccessControl =
  fac_projectRoot :: string
  allowedExtensions :: "string list"
  blockedPaths :: "string list"
  maxFileSize :: nat

definition new_FileAccessControl :: "env \<Rightarrow> string \<Rightarrow> FileAccessControl" where
  "new_FileAccessControl e root =
     \<lparr> fac_projectRoot = resolve (cwd e) root,
       allowedExtensions =
         [''.js'', ''.ts'', ''.jsx'', ''.tsx'',
          ''.py'', ''.go'', ''.rs'', ''.java'', ''.c'', ''.cpp'', ''.h'', ''.hpp'',
          ''.md'', ''.txt'', ''.json'', ''.yaml'', ''.yml'',
          ''.html'', ''.css'', ''.scss'', ''.sass'', ''.less'',
          ''.php'', ''.rb'', ''.swift'', ''.kt'', ''.dart'',
          ''.sql'', ''.graphql'', ''.proto'',
          ''.sh'', ''.bash'', ''.zsh'', ''.fish'',
          ''.dockerfile'', ''.gitignore'', ''.gitattributes''],
       blockedPaths =
         [''node_modules'', ''.git'', ''.svn'', ''.hg'', ''dist'', ''build'', ''out'',
          ''target'', ''bin'', ''obj'', ''.next'', ''.nuxt'', ''coverage'', ''.nyc_output'',
          ''tmp'', ''temp'', ''.cache'', ''.vscode/settings.json'', ''.idea'', ''logs'',
          ''*.log'', ''.env*'', ''secrets'', ''credentials'', ''keys'',
          ''*.key'', ''*.pem'', ''*.p12'', ''*.pfx'', ''*.crt'', ''*.cert'', ''*.cer'',
          ''id_rsa*'', ''id_dsa*'', ''id_ecdsa*'', ''id_ed25519*''],
       maxFileSize = 10 * 1024 * 1024 \<rparr>"

text \<open>The pattern \<open>new RegExp('^' + blockedPath.replace(/\*/g, '.*') + '$')\<close>: a star
  of the blocked path stands for any run of characters, a dot (which the source does
  not escape) for any one character, both within a line; every other character of
  the blocked paths stands for itself. The pattern is anchored at both ends, so
  \<open>test\<close> asks whether the whole path matches.\<close>

definition line_terminator :: "char \<Rightarrow> bool" where
  "line_terminator c = (c = CHR 0x0A \<or> c = CHR 0x0D)"

fun wildcard_test :: "string \<Rightarrow> string \<Rightarrow> bool" where
  "wildcard_test [] s = (s = [])"
| "wildcard_test (p # ps) [] = (p = CHR ''*'' \<and> wildcard_test ps [])"
| "wildcard_test (p # ps) (c # cs) =
     (if p = CHR ''*'' then
        wildcard_test ps (c # cs) \<or> (\<not> line_terminator c \<and> wildcard_test (p # ps) cs)
      else if p = CHR ''.'' then \<not> line_terminator c \<and> wildcard_test ps cs
      else p = c \<and> wildcard_test ps cs)"

definition isPathBlocked :: "FileAccessControl \<Rightarrow> string \<Rightarrow> bool" where
  "isPathBlocked fac relativePath =
     (let normalizedPath = map (\<lambda>c. if c = CHR 0x5C then CHR ''/'' else c) relativePath
      in list_ex (\<lambda>blockedPath.
                    normalizedPath = blockedPath
                  \<or> startsWith normalizedPath (blockedPath @ ''/'')
                  \<or> (CHR ''*'' \<in> set blockedPath \<and> wildcard_test blockedPath normalizedPath))
           (blockedPaths fac))"

definition getFileExtension :: "string \<Rightarrow> string" where
  "getFileExtension filePath =
     (if CHR ''.'' \<notin> set filePath then []
      else toLowerCase (CHR ''.'' # rev (takeWhile (\<lambda>c. c \<noteq> CHR ''.'') (rev filePath))))"

record validation =
  isValid :: bool
  v_reason :: "string option"
  sanitizedPath :: "string option"

definition invalid :: "string \<Rightarrow> validation" where
  "invalid why = \<lparr> isValid = False, v_reason = Some why, sanitizedPath = None \<rparr>"

text \<open>The fields of \<open>fs.Stats\<close> that are read: the size of a file is the number of
  its bytes; a directory has the size of one block.\<close>

definition stat_size :: "node \<Rightarrow> nat" where
  "stat_size n = (case n of File c \<Rightarrow> length c | Dir \<Rightarrow> 4096)"

definition stat_isFile :: "node \<Rightarrow> bool" where
  "stat_isFile n = (case n of File _ \<Rightarrow> True | Dir \<Rightarrow> False)"

text \<open>\<open>validateFilePath\<close>. The outer handler answers \<open>'File path validation failed'\<close>
  when \<open>statSync\<close> throws.\<close>

definition validateFilePath ::
  "env \<Rightarrow> filesystem \<Rightarrow> FileAccessControl \<Rightarrow> string \<Rightarrow> validation" where
  "validateFilePath e fs fac filePath =
     (let absolutePath = resolve (cwd e) filePath;
          relativePath = relative (cwd e) (fac_projectRoot fac) absolutePath
      in if startsWith relativePath ''..'' \<or> includes_str absolutePath ''..''
         then invalid ''Directory traversal detected''
         else if \<not> startsWith absolutePath (fac_projectRoot fac)
         then invalid ''File outside project root''
         else if isPathBlocked fac relativePath
         then invalid ''Path is in blocked list''
         else
           let extension = getFileExtension absolutePath in
           if extension \<notin> set (allowedExtensions fac)
           then invalid (''File extension '' @ [CHR 0x27] @ extension @ [CHR 0x27] @ '' not allowed'')
           else
             if \<not> existsSync e fs absolutePath then invalid ''File does not exist''
             else
               (case statSync e fs absolutePath of
                  Inl _ \<Rightarrow> invalid ''File path validation failed''
                | Inr stats \<Rightarrow>
                    if stat_size stats > maxFileSize fac
                    then invalid (''File too large ('' @ show_nat (stat_size stats) @ '' bytes > ''
                                    @ show_nat (maxFileSize fac) @ '' bytes)'')
                    else if \<not> stat_isFile stats
                    then invalid ''Path is not a regular file''
                    else \<lparr> isValid = True, v_reason = None, sanitizedPath = Some absolutePath \<rparr>))"

section \<open>Regular expressions\<close>

text \<open>
  The sanitizer works with JavaScript regular expressions. The engine belongs to the
  platform; it is modelled after the backtracking matcher of the ECMAScript
  specification, for the constructs that the patterns of the repository use: character
  classes, sequence, alternation, greedy and lazy repetition with bounds, the word
  boundary and negative lookahead. Captures are not recorded: every replacement
  callback of the sanitizer reads the whole match only. The model is exact on ASCII
  text: \<open>\s\<close> there is the six ASCII white space characters, and letters are compared
  without case by ASCII upper-casing.
\<close>

type_synonym code = int

datatype cset = CChar code | CRange code code | CDigit | CSpace

fun cset_mem :: "cset \<Rightarrow> code \<Rightarrow> bool" where
  "cset_mem (CChar a) x = (x = a)"
| "cset_mem (CRange a b) x = (a \<le> x \<and> x \<le> b)"
| "cset_mem CDigit x = (48 \<le> x \<and> x \<le> 57)"
| "cset_mem CSpace x = ((9 \<le> x \<and> x \<le> 13) \<or> x = 32)"

fun cset_any :: "cset list \<Rightarrow> code \<Rightarrow> bool" where
  "cset_any [] x = False"
| "cset_any (a # as) x = (if cset_mem a x then True else cset_any as x)"

datatype rx =
    Atom bool "cset list"
  | Eps
  | Seq rx rx
  | Alt rx rx
  | Rep nat "nat option" bool rx
  | WordB
  | NegLook rx

definition lower_code :: "code \<Rightarrow> code" where
  "lower_code x = (if 65 \<le> x \<and> x \<le> 90 then x + 32 else x)"

definition upper_code :: "code \<Rightarrow> code" where
  "upper_code x = (if 97 \<le> x \<and> x \<le> 122 then x - 32 else x)"

text \<open>\<open>Atom negated members\<close> matches one character. With the \<open>i\<close> flag a character
  belongs to a class when some member has the same canonical (upper-case) form, that
  is, when the character or its other case is a member; the negation is applied
  afterwards.\<close>

definition atom_match :: "bool \<Rightarrow> bool \<Rightarrow> cset list \<Rightarrow> code \<Rightarrow> bool" where
  "atom_match ignoreCase negated members x =
     (let found = (if cset_any members x then True
                   else if ignoreCase
                   then (if cset_any members (lower_code x) then True
                         else cset_any members (upper_code x))
                   else False)
      in if negated then \<not> found else found)"

definition is_word_char :: "code option \<Rightarrow> bool" where
  "is_word_char c =
     (case c of
        None \<Rightarrow> False
      | Some x \<Rightarrow> cset_any [CRange 97 122, CRange 65 90, CDigit, CChar 95] x)"

text \<open>A position in the input: the character before it, if any, the index, and the
  characters that follow.\<close>

type_synonym pos = "code option \<times> int \<times> code list"

definition pos_index :: "pos \<Rightarrow> int" where
  "pos_index x = fst (snd x)"

definition pos_rest :: "pos \<Rightarrow> code list" where
  "pos_rest x = snd (snd x)"

text \<open>\<open>RepeatMatcher\<close>. The result lists the positions where the repetition can end,
  in the order in which backtracking tries them. An iteration that ends where it
  began is rejected once the minimum is reached, so every step lowers the minimum or
  shortens the text; the fuel \<open>min + length + 1\<close> given by \<open>rx_run\<close> is never used up.\<close>

fun rep_iter ::
  "nat \<Rightarrow> (pos \<Rightarrow> pos list) \<Rightarrow> nat \<Rightarrow> nat option \<Rightarrow> bool \<Rightarrow> pos \<Rightarrow> pos list" where
  "rep_iter 0 m mn mx greedy x = []"
| "rep_iter (Suc fuel) m mn mx greedy x =
     (if mx = Some 0 then [x]
      else if mn \<noteq> 0 then
        concat (map (rep_iter fuel m (mn - 1) (map_option (\<lambda>k. k - 1) mx) greedy) (m x))
      else
        let more = concat (map (\<lambda>y. if pos_index y = pos_index x then []
                                     else rep_iter fuel m 0 (map_option (\<lambda>k. k - 1) mx) greedy y)
                               (m x))
        in if greedy then more @ [x] else x # more)"

fun rx_run :: "bool \<Rightarrow> rx \<Rightarrow> pos \<Rightarrow> pos list" where
  "rx_run ic (Atom negated members) x =
     (case pos_rest x of
        [] \<Rightarrow> []
      | c # cs \<Rightarrow> if atom_match ic negated members c then [(Some c, pos_index x + 1, cs)] else [])"
| "rx_run ic Eps x = [x]"
| "rx_run ic (Seq a b) x = concat (map (rx_run ic b) (rx_run ic a x))"
| "rx_run ic (Alt a b) x = rx_run ic a x @ rx_run ic b x"
| "rx_run ic (Rep mn mx greedy r) x =
     rep_iter (mn + length (pos_rest x) + 1) (rx_run ic r) mn mx greedy x"
| "rx_run ic WordB x =
     (if is_word_char (fst x) \<noteq> is_word_char (case pos_rest x of [] \<Rightarrow> None | c # _ \<Rightarrow> Some c)
      then [x] else [])"
| "rx_run ic (NegLook r) x = (if rx_run ic r x = [] then [x] else [])"

text \<open>The search of \<open>RegExpBuiltinExec\<close>: the first index, from the given position on,
  at which the pattern matches, with the end of the match that backtracking finds
  first.\<close>

fun rx_scan :: "bool \<Rightarrow> rx \<Rightarrow> code option \<Rightarrow> int \<Rightarrow> code list \<Rightarrow> (int \<times> int) option" where
  "rx_scan ic r p i [] =
     (case rx_run ic r (p, i, []) of [] \<Rightarrow> None | y # _ \<Rightarrow> Some (i, pos_index y))"
| "rx_scan ic r p i (c # cs) =
     (case rx_run ic r (p, i, c # cs) of
        [] \<Rightarrow> rx_scan ic r (Some c) (i + 1) cs
      | y # _ \<Rightarrow> Some (i, pos_index y))"

text \<open>A string is searched as the sequence of its character codes.\<close>

definition rx_search :: "bool \<Rightarrow> rx \<Rightarrow> string \<Rightarrow> nat \<Rightarrow> (nat \<times> nat) option" where
  "rx_search ic r s i =
     (if i > length s then None
      else
        let codes = map of_char s in
        map_option (\<lambda>(b, e). (nat b, nat e))
          (rx_scan ic r (if i = 0 then None else Some (codes ! (i - 1))) (int i) (drop i codes)))"

text \<open>A \<open>RegExp\<close> object: its pattern, two of its flags, and the mutable \<open>lastIndex\<close>.\<close>

record regexp =
  pattern :: rx
  ignoreCase :: bool
  global :: bool
  lastIndex :: nat

text \<open>\<open>RegExpBuiltinExec\<close>: a global expression starts at its \<open>lastIndex\<close> and moves it
  to the end of the match, or back to 0 when there is none.\<close>

definition regexp_exec :: "regexp \<Rightarrow> string \<Rightarrow> (nat \<times> nat) option \<times> regexp" where
  "regexp_exec re s =
     (let start = (if global re then lastIndex re else 0) in
      case rx_search (ignoreCase re) (pattern re) s start of
        None \<Rightarrow> (None, if global re then re\<lparr> lastIndex := 0 \<rparr> else re)
      | Some (b, e) \<Rightarrow> (Some (b, e), if global re then re\<lparr> lastIndex := e \<rparr> else re))"

definition regexp_test :: "regexp \<Rightarrow> string \<Rightarrow> bool \<times> regexp" where
  "regexp_test re s = (case regexp_exec re s of (m, re') \<Rightarrow> (m \<noteq> None, re'))"

text \<open>The loop shared by \<open>match\<close> and \<open>replace\<close> for a global expression: \<open>exec\<close> is
  called until it fails, and after an empty match \<open>lastIndex\<close> is moved one further.
  Every round moves \<open>lastIndex\<close> forward, so \<open>length + 2\<close> rounds of fuel suffice.\<close>

fun exec_all :: "nat \<Rightarrow> regexp \<Rightarrow> string \<Rightarrow> (nat \<times> nat) list \<times> regexp" where
  "exec_all 0 re s = ([], re)"
| "exec_all (Suc fuel) re s =
     (case regexp_exec re s of
        (None, re') \<Rightarrow> ([], re')
      | (Some (b, e), re') \<Rightarrow>
          (case exec_all fuel (if e = b then re'\<lparr> lastIndex := Suc (lastIndex re') \<rparr> else re') s of
             (ms, re'') \<Rightarrow> ((b, e) # ms, re'')))"

definition global_matches :: "regexp \<Rightarrow> string \<Rightarrow> (nat \<times> nat) list \<times> regexp" where
  "global_matches re s = exec_all (length s + 2) (re\<lparr> lastIndex := 0 \<rparr>) s"

definition substring :: "string \<Rightarrow> nat \<Rightarrow> nat \<Rightarrow> string" where
  "substring s b e = take (e - b) (drop b s)"

text \<open>\<open>String.prototype.match\<close>: all matches of a global expression, or \<open>null\<close> when there
  is none; the single first match otherwise.\<close>

definition String_match :: "string \<Rightarrow> regexp \<Rightarrow> string list option \<times> regexp" where
  "String_match s re =
     (if global re then
        (case global_matches re s of
           (ms, re') \<Rightarrow> (if ms = [] then None else Some (map (\<lambda>(b, e). substring s b e) ms), re'))
      else
        (case regexp_exec re s of
           (None, re') \<Rightarrow> (None, re')
         | (Some (b, e), re') \<Rightarrow> (Some [substring s b e], re')))"

text \<open>The result of \<open>replace\<close> is assembled from the matches in order; a match that
  starts before the end of the previous one is passed over.\<close>

fun splice :: "string \<Rightarrow> (string \<Rightarrow> string) \<Rightarrow> nat \<Rightarrow> (nat \<times> nat) list \<Rightarrow> string" where
  "splice s f next [] = drop next s"
| "splice s f next ((b, e) # ms) =
     (if b \<ge> next then substring s next b @ f (substring s b e) @ splice s f e ms
      else splice s f next ms)"

definition String_replace :: "string \<Rightarrow> regexp \<Rightarrow> (string \<Rightarrow> string) \<Rightarrow> string \<times> regexp" where
  "String_replace s re f =
     (if global re then
        (case global_matches re s of (ms, re') \<Rightarrow> (splice s f 0 ms, re'))
      else
        (case regexp_exec re s of
           (None, re') \<Rightarrow> (s, re')
         | (Some (b, e), re') \<Rightarrow> (splice s f 0 [(b, e)], re')))"

subsection \<open>Writing patterns\<close>

definition chr :: "char \<Rightarrow> rx" where
  "chr c = Atom False [CChar (of_char c)]"

definition lit :: "string \<Rightarrow> rx" where
  "lit s = foldr (\<lambda>c r. Seq (chr c) r) s Eps"

definition seqs :: "rx list \<Rightarrow> rx" where
  "seqs rs = foldr Seq rs Eps"

fun alts :: "rx list \<Rightarrow> rx" where
  "alts [] = Eps"
| "alts [r] = r"
| "alts (r # rs) = Alt r (alts rs)"

definition chars :: "string \<Rightarrow> cset list" where
  "chars s = map (\<lambda>c. CChar (of_char c)) s"

definition range :: "char \<Rightarrow> char \<Rightarrow> cset" where
  "range a b = CRange (of_char a) (of_char b)"

definition one_of :: "string \<Rightarrow> rx" where
  "one_of s = Atom False (chars s)"

definition opt :: "rx \<Rightarrow> rx" where
  "opt r = Rep 0 (Some 1) True r"

definition star :: "rx \<Rightarrow> rx" where
  "star r = Rep 0 None True r"

definition plus :: "rx \<Rightarrow> rx" where
  "plus r = Rep 1 None True r"

definition at_least :: "nat \<Rightarrow> rx \<Rightarrow> rx" where
  "at_least n r = Rep n None True r"

definition exactly :: "nat \<Rightarrow> rx \<Rightarrow> rx" where
  "exactly n r = Rep n (Some n) True r"

definition space :: rx where
  "space = Atom False [CSpace]"

definition digit :: rx where
  "digit = Atom False [CDigit]"

definition alnum :: "cset list" where
  "alnum = [range CHR ''a'' CHR ''z'', range CHR ''A'' CHR ''Z'', range CHR ''0'' CHR ''9'']"

text \<open>The three quote characters \<open>'\<close>, \<open>"\<close> and the backtick.\<close>

definition quotes :: "cset list" where
  "quotes = [CChar 0x27, CChar 0x22, CChar 0x60]"

definition quote :: rx where
  "quote = Atom False quotes"

text \<open>The dot: any character but a line terminator.\<close>

definition dot :: rx where
  "dot = Atom True [CChar 0x0A, CChar 0x0D]"

section \<open>The content sanitizer (memory.ts, class ContentSanitizer)\<close>

text \<open>The two static pattern tables, in the order of the source. Every expression
  carries the flags \<open>g\<close> and \<open>i\<close>.\<close>

definition gi :: "rx \<Rightarrow> regexp" where
  "gi r = \<lparr> pattern = r, ignoreCase = True, global = True, lastIndex = 0 \<rparr>"

definition key_chars :: rx where
  "key_chars = Atom False (alnum @ chars ''_-'')"

definition sensitive_sources :: "rx list" where
  "sensitive_sources =
     [\<comment> \<open>API keys and tokens\<close>
      seqs [alts [seqs [lit ''api'', opt (one_of ''_-''), lit ''key''],
                  lit ''token'', lit ''secret'', lit ''password'', lit ''pwd''],
            star space, one_of '':='', star space, opt quote,
            at_least 16 key_chars, opt quote],
      \<comment> \<open>database URLs\<close>
      seqs [alts [lit ''mongodb'', lit ''mysql'', lit ''postgres'', lit ''redis''],
            lit ''://'', plus (Atom True [CSpace, CChar 0x0A])],
      \<comment> \<open>AWS keys\<close>
      seqs [lit ''AKIA'', exactly 16 (Atom False [range CHR ''0'' CHR ''9'', range CHR ''A'' CHR ''Z''])],
      seqs [alts [lit ''aws_access_key_id'', lit ''aws_secret_access_key''],
            star space, one_of '':='', star space, opt quote,
            at_least 20 (Atom False (alnum @ chars ''/+'')), opt quote],
      \<comment> \<open>JWT tokens\<close>
      seqs [lit ''eyJ'', star key_chars, lit ''.eyJ'', star key_chars, lit ''.'', star key_chars],
      \<comment> \<open>private keys\<close>
      seqs [lit ''-----BEGIN'', plus space, opt (seqs [lit ''RSA'', plus space]),
            lit ''PRIVATE'', plus space, lit ''KEY-----'',
            Rep 0 None False (Atom True []),
            lit ''-----END'', plus space, opt (seqs [lit ''RSA'', plus space]),
            lit ''PRIVATE'', plus space, lit ''KEY-----''],
      \<comment> \<open>email addresses\<close>
      seqs [plus (Atom False (alnum @ chars ''._%+-'')), lit ''@'',
            plus (Atom False (alnum @ chars ''.-'')), lit ''.'',
            at_least 2 (Atom False [range CHR ''a'' CHR ''z'', range CHR ''A'' CHR ''Z''])],
      \<comment> \<open>credit card numbers\<close>
      seqs [WordB,
            exactly 3 (seqs [exactly 4 digit, opt (Atom False [CChar (of_char CHR ''-''), CSpace])]),
            exactly 4 digit, WordB],
      \<comment> \<open>social security numbers\<close>
      seqs [WordB, exactly 3 digit, lit ''-'', exactly 2 digit, lit ''-'', exactly 4 digit, WordB],
      \<comment> \<open>phone numbers\<close>
      seqs [WordB, exactly 3 digit, lit ''-'', exactly 3 digit, lit ''-'', exactly 4 digit, WordB],
      \<comment> \<open>private IP addresses\<close>
      seqs [WordB,
            alts [lit ''10.'',
                  seqs [lit ''172.'',
                        alts [seqs [lit ''1'', Atom False [range CHR ''6'' CHR ''9'']],
                              seqs [lit ''2'', Atom False [range CHR ''0'' CHR ''9'']],
                              seqs [lit ''3'', one_of ''01'']],
                        lit ''.''],
                  lit ''192.168.''],
            Rep 1 (Some 3) True digit, lit ''.'', Rep 1 (Some 3) True digit, WordB],
      \<comment> \<open>secret environment variables\<close>
      seqs [alts [lit ''SECRET'', lit ''PRIVATE'', lit ''CONFIDENTIAL'', lit ''INTERNAL''],
            lit ''_'', plus (Atom False [range CHR ''A'' CHR ''Z'', CChar (of_char CHR ''_'')]),
            star space, one_of '':='', star space, opt quote,
            plus (Atom True (CSpace # quotes @ [CChar 0x0A])),
            opt quote]]"

definition not_quote :: rx where
  "not_quote = Atom True quotes"

definition malicious_sources :: "rx list" where
  "malicious_sources =
     [\<comment> \<open>code injection\<close>
      seqs [lit ''eval'', star space, lit ''(''],
      seqs [lit ''Function'', star space, lit ''(''],
      seqs [lit ''setTimeout'', star space, lit ''('', star space, quote, star not_quote, quote],
      seqs [lit ''setInterval'', star space, lit ''('', star space, quote, star not_quote, quote],
      \<comment> \<open>file system attacks\<close>
      seqs [lit ''fs.'', alts [lit ''unlink'', lit ''rmdir'', lit ''rm'', lit ''delete'']],
      seqs [lit ''child_process.'', alts [lit ''exec'', lit ''spawn'', lit ''fork'']],
      lit ''process.exit'',
      \<comment> \<open>network attacks\<close>
      seqs [lit ''fetch'', star space, lit ''('', star space, quote, lit ''http'', opt (lit ''s''),
            lit ''://'', NegLook (alts [lit ''localhost'', lit ''127.0.0.1''])],
      lit ''XMLHttpRequest'',
      \<comment> \<open>prototype pollution\<close>
      lit ''__proto__'',
      lit ''constructor.prototype'',
      \<comment> \<open>SQL injection\<close>
      seqs [alts [lit ''union'', lit ''select'', lit ''insert'', lit ''update'', lit ''delete'',
                  lit ''drop'', lit ''create'', lit ''alter''],
            plus space, opt (seqs [lit ''all'', plus space]), opt (seqs [lit ''distinct'', plus space]),
            alts [lit ''from'', lit ''into'', lit ''table'', lit ''database'']]]"

text \<open>The class with its two static tables. The expressions are shared by all calls,
  so their \<open>lastIndex\<close> fields are the state of the sanitizer.\<close>

record ContentSanitizer =
  SENSITIVE_PATTERNS :: "regexp list"
  MALICIOUS_PATTERNS :: "regexp list"

definition ContentSanitizer_loaded :: ContentSanitizer where
  "ContentSanitizer_loaded =
     \<lparr> SENSITIVE_PATTERNS = map gi sensitive_sources,
       MALICIOUS_PATTERNS = map gi malicious_sources \<rparr>"

text \<open>The tests of \<open>getSensitiveDataType\<close> use fresh expressions without the \<open>g\<close> flag:
  \<open>test\<close> asks whether the pattern occurs anywhere in the match.\<close>

definition occurs :: "bool \<Rightarrow> rx \<Rightarrow> string \<Rightarrow> bool" where
  "occurs ic r s = (rx_search ic r s 0 \<noteq> None)"

definition getSensitiveDataType :: "string \<Rightarrow> string" where
  "getSensitiveDataType m =
     (if occurs True (seqs [lit ''api'', opt (one_of ''_-''), lit ''key'']) m then ''api_key''
      else if occurs True (lit ''token'') m then ''token''
      else if occurs True (alts [lit ''password'', lit ''pwd'']) m then ''password''
      else if occurs True (lit ''secret'') m then ''secret''
      else if occurs True (seqs [lit ''AKIA'',
                 exactly 16 (Atom False [range CHR ''0'' CHR ''9'', range CHR ''A'' CHR ''Z''])]) m
           then ''aws_key''
      else if occurs True (seqs [lit ''eyJ'', star key_chars, lit ''.'']) m then ''jwt_token''
      else if occurs True (seqs [lit ''-----BEGIN'', star dot, lit ''PRIVATE'', star dot,
                                 lit ''KEY-----'']) m
           then ''private_key''
      else if occurs False (seqs [lit ''@'', plus (Atom False (alnum @ chars ''.-'')), lit ''.'',
                 at_least 2 (Atom False [range CHR ''a'' CHR ''z'', range CHR ''A'' CHR ''Z''])]) m
           then ''email''
      else if occurs False (seqs [exactly 3 digit, lit ''-'', exactly 2 digit, lit ''-'',
                                  exactly 4 digit]) m
           then ''ssn''
      else if occurs False (seqs [exactly 3 digit, lit ''-'', exactly 3 digit, lit ''-'',
                                  exactly 4 digit]) m
           then ''phone''
      else if occurs False (seqs [exactly 3 (seqs [exactly 4 digit,
                                     opt (Atom False [CChar (of_char CHR ''-''), CSpace])]),
                                  exactly 4 digit]) m
           then ''credit_card''
      else if occurs False (alts [lit ''mongodb'', lit ''mysql'', lit ''postgres'', lit ''redis'']) m
           then ''database_url''
      else ''sensitive_data'')"

record sanitize_result =
  sanitizedContent :: string
  sensitiveDataFound :: bool
  maliciousPatterns :: bool
  redactionCount :: nat

definition redact :: "string \<Rightarrow> string" where
  "redact m = ''[REDACTED_'' @ toUpperCase (getSensitiveDataType m) @ '']''"

definition flag_malicious :: "string \<Rightarrow> string" where
  "flag_malicious m = ''[POTENTIALLY_MALICIOUS: '' @ take 20 m @ ''...]''"

text \<open>One round of the first loop: \<open>content.match(pattern)\<close> looks at the original
  content, the replacement is made in the sanitized content.\<close>

definition sensitive_round :: "string \<Rightarrow> sanitize_result \<Rightarrow> regexp \<Rightarrow> sanitize_result \<times> regexp" where
  "sensitive_round content acc re =
     (case String_match content re of
        (None, re1) \<Rightarrow> (acc, re1)
      | (Some matches, re1) \<Rightarrow>
          (case String_replace (sanitizedContent acc) re1 redact of
             (replaced, re2) \<Rightarrow>
               (acc\<lparr> sensitiveDataFound := True,
                     redactionCount := redactionCount acc + length matches,
                     sanitizedContent := replaced \<rparr>, re2)))"

text \<open>One round of the second loop: \<open>pattern.test(content)\<close> starts at the \<open>lastIndex\<close>
  that the shared expression has at that moment.\<close>

definition malicious_round :: "string \<Rightarrow> sanitize_result \<Rightarrow> regexp \<Rightarrow> sanitize_result \<times> regexp" where
  "malicious_round content acc re =
     (case regexp_test re content of
        (False, re1) \<Rightarrow> (acc, re1)
      | (True, re1) \<Rightarrow>
          (case String_replace (sanitizedContent acc) re1 flag_malicious of
             (replaced, re2) \<Rightarrow>
               (acc\<lparr> maliciousPatterns := True, sanitizedContent := replaced \<rparr>, re2)))"

text \<open>A \<open>for ... of\<close> loop over a table of expressions: the accumulator is threaded
  through, and every expression is returned in the state the round left it in.\<close>

fun rounds ::
  "(sanitize_result \<Rightarrow> regexp \<Rightarrow> sanitize_result \<times> regexp) \<Rightarrow> sanitize_result \<Rightarrow> regexp list
     \<Rightarrow> sanitize_result \<times> regexp list" where
  "rounds step acc [] = (acc, [])"
| "rounds step acc (re # res) =
     (case step acc re of
        (acc1, re1) \<Rightarrow> (case rounds step acc1 res of (acc2, res1) \<Rightarrow> (acc2, re1 # res1)))"

definition sanitizeContent ::
  "ContentSanitizer \<Rightarrow> string \<Rightarrow> string \<Rightarrow> sanitize_result \<times> ContentSanitizer" where
  "sanitizeContent cs content filePath =
     (let start = \<lparr> sanitizedContent = content, sensitiveDataFound = False,
                     maliciousPatterns = False, redactionCount = 0 \<rparr>
      in case rounds (sensitive_round content) start (SENSITIVE_PATTERNS cs) of
           (acc1, sens) \<Rightarrow>
             (case rounds (malicious_round content) acc1 (MALICIOUS_PATTERNS cs) of
                (acc2, mal) \<Rightarrow>
                  (acc2, \<lparr> SENSITIVE_PATTERNS = sens, MALICIOUS_PATTERNS = mal \<rparr>)))"

section \<open>Base64 and JSON\<close>

text \<open>
  \<open>Buffer.from(data, 'utf8').toString('base64')\<close> and its inverse, and
  \<open>JSON.stringify\<close> and \<open>JSON.parse\<close>, belong to the platform. The text of base64
  and of JSON is held as the sequence of the bytes of its UTF-8 encoding; the
  conversions between a JavaScript string and its bytes follow in the next section.
\<close>

text \<open>The character of a six-bit value in the alphabet \<open>A-Z a-z 0-9 + /\<close>.\<close>

definition b64 :: "nat \<Rightarrow> char" where
  "b64 n =
     (if n < 26 then char_of (65 + n)
      else if n < 52 then char_of (71 + n)
      else if n < 62 then char_of (n - 4)
      else if n = 62 then CHR ''+''
      else CHR ''/'')"

text \<open>Three bytes become four characters; one or two remaining bytes are padded
  with \<open>=\<close>.\<close>

definition encode1 :: "char \<Rightarrow> string" where
  "encode1 a =
     (let x = (of_char a :: nat)
      in [b64 (x div 4), b64 ((x mod 4) * 16), CHR ''='', CHR ''=''])"

definition encode2 :: "char \<Rightarrow> char \<Rightarrow> string" where
  "encode2 a b =
     (let x = (of_char a :: nat); y = (of_char b :: nat)
      in [b64 (x div 4), b64 ((x mod 4) * 16 + y div 16), b64 ((y mod 16) * 4), CHR ''=''])"

definition encode3 :: "char \<Rightarrow> char \<Rightarrow> char \<Rightarrow> string" where
  "encode3 a b c =
     (let x = (of_char a :: nat); y = (of_char b :: nat); z = (of_char c :: nat)
      in [b64 (x div 4), b64 ((x mod 4) * 16 + y div 16),
          b64 ((y mod 16) * 4 + z div 64), b64 (z mod 64)])"

fun base64_encode :: "string \<Rightarrow> string" where
  "base64_encode [] = []"
| "base64_encode [a] = encode1 a"
| "base64_encode [a, b] = encode2 a b"
| "base64_encode (a # b # c # rest) = encode3 a b c @ base64_encode rest"

text \<open>The decoder of \<open>Buffer.from(s, 'base64')\<close> also reads the URL alphabet (\<open>-\<close> for
  62 and \<open>_\<close> for 63), passes over every character that is in neither alphabet, and
  stops at the first \<open>=\<close>.\<close>

definition unbase64_code :: "nat \<Rightarrow> nat option" where
  "unbase64_code n =
     (if 65 \<le> n \<and> n \<le> 90 then Some (n - 65)
      else if 97 \<le> n \<and> n \<le> 122 then Some (n - 71)
      else if 48 \<le> n \<and> n \<le> 57 then Some (n + 4)
      else if n = 43 \<or> n = 45 then Some 62
      else if n = 47 \<or> n = 95 then Some 63
      else None)"

definition unbase64 :: "char \<Rightarrow> nat option" where
  "unbase64 c = unbase64_code (of_char c)"

definition sextets :: "string \<Rightarrow> nat list" where
  "sextets s = List.map_filter unbase64 (takeWhile (\<lambda>c. c \<noteq> CHR ''='') s)"

fun decode_sextets :: "nat list \<Rightarrow> string" where
  "decode_sextets (a # b # c # d # rest) =
     [char_of (a * 4 + b div 16), char_of ((b mod 16) * 16 + c div 4), char_of ((c mod 4) * 64 + d)]
       @ decode_sextets rest"
| "decode_sextets [a, b, c] = [char_of (a * 4 + b div 16), char_of ((b mod 16) * 16 + c div 4)]"
| "decode_sextets [a, b] = [char_of (a * 4 + b div 16)]"
| "decode_sextets _ = []"

definition base64_decode :: "string \<Rightarrow> string" where
  "base64_decode s = decode_sextets (sextets s)"

datatype json =
    JNull
  | JBool bool
  | JNumber string
  | JString string
  | JArray "json list"
  | JObject "(string \<times> json) list"

text \<open>A hexadecimal digit, in lower case as \<open>JSON.stringify\<close> writes it.\<close>

definition hex_digit :: "nat \<Rightarrow> char" where
  "hex_digit n = (if n mod 16 < 10 then char_of (48 + n mod 16) else char_of (87 + n mod 16))"

text \<open>\<open>QuoteJSONString\<close>: the quote and the backslash are escaped, the control
  characters are written as \<open>\b\<close>, \<open>\t\<close>, \<open>\n\<close>, \<open>\f\<close>, \<open>\r\<close> or \<open>\u00XX\<close>.\<close>

definition json_escape :: "char \<Rightarrow> string" where
  "json_escape c =
     (let n = (of_char c :: nat) in
      if c = CHR 0x22 then [CHR 0x5C, CHR 0x22]
      else if c = CHR 0x5C then [CHR 0x5C, CHR 0x5C]
      else if n = 8 then [CHR 0x5C, CHR ''b'']
      else if n = 9 then [CHR 0x5C, CHR ''t'']
      else if n = 10 then [CHR 0x5C, CHR ''n'']
      else if n = 12 then [CHR 0x5C, CHR ''f'']
      else if n = 13 then [CHR 0x5C, CHR ''r'']
      else if n < 32 then [CHR 0x5C, CHR ''u'', CHR ''0'', CHR ''0'', hex_digit (n div 16), hex_digit n]
      else [c])"

definition json_quote :: "string \<Rightarrow> string" where
  "json_quote s = CHR 0x22 # concat (map json_escape s) @ [CHR 0x22]"

fun JSON_stringify :: "json \<Rightarrow> string" where
  "JSON_stringify JNull = ''null''"
| "JSON_stringify (JBool b) = (if b then ''true'' else ''false'')"
| "JSON_stringify (JNumber t) = t"
| "JSON_stringify (JString s) = json_quote s"
| "JSON_stringify (JArray vs) = ''['' @ join_with '','' (map JSON_stringify vs) @ '']''"
| "JSON_stringify (JObject ms) =
     ''{'' @ join_with '','' (map (\<lambda>(k, v). json_quote k @ '':'' @ JSON_stringify v) ms) @ ''}''"

definition json_ws :: "char \<Rightarrow> bool" where
  "json_ws c = (c = CHR 0x20 \<or> c = CHR 0x09 \<or> c = CHR 0x0A \<or> c = CHR 0x0D)"

definition skip_ws :: "string \<Rightarrow> string" where
  "skip_ws s = dropWhile json_ws s"

definition unhex_code :: "nat \<Rightarrow> nat option" where
  "unhex_code n =
     (if 48 \<le> n \<and> n \<le> 57 then Some (n - 48)
      else if 97 \<le> n \<and> n \<le> 102 then Some (n - 87)
      else if 65 \<le> n \<and> n \<le> 70 then Some (n - 55)
      else None)"

definition unhex :: "char \<Rightarrow> nat option" where
  "unhex c = unhex_code (of_char c)"

text \<open>The bytes that stand for the code unit of a \<open>\uXXXX\<close> escape: its UTF-8
  encoding, each half of a surrogate pair on its own. The callers below do not tell
  encodings of code units from 128 on apart: no such byte is a base64 character or
  occurs in the key \<open>data\<close>.\<close>

definition utf8_of_unit :: "nat \<Rightarrow> string" where
  "utf8_of_unit n =
     (if n < 128 then [char_of n]
      else if n < 2048 then [char_of (192 + n div 64), char_of (128 + n mod 64)]
      else [char_of (224 + n div 4096), char_of (128 + (n div 64) mod 64), char_of (128 + n mod 64)])"

definition unescape :: "char \<Rightarrow> char option" where
  "unescape e =
     (if e = CHR 0x22 then Some (CHR 0x22)
      else if e = CHR 0x5C then Some (CHR 0x5C)
      else if e = CHR ''/'' then Some (CHR ''/'')
      else if e = CHR ''b'' then Some (CHR 0x08)
      else if e = CHR ''f'' then Some (CHR 0x0C)
      else if e = CHR ''n'' then Some (CHR 0x0A)
      else if e = CHR ''r'' then Some (CHR 0x0D)
      else if e = CHR ''t'' then Some (CHR 0x09)
      else None)"

text \<open>The characters of a string literal after its opening quote, up to the closing
  quote; the result is the string and the text after it.\<close>

fun parse_string_body :: "string \<Rightarrow> (string \<times> string) option" where
  "parse_string_body [] = None"
| "parse_string_body (c # cs) =
     (if c = CHR 0x22 then Some ([], cs)
      else if c = CHR 0x5C then
        (case cs of
           [] \<Rightarrow> None
         | e # es \<Rightarrow>
             if e = CHR ''u'' then
               (case es of
                  h1 # h2 # h3 # h4 # rest \<Rightarrow>
                    (case (unhex h1, unhex h2, unhex h3, unhex h4) of
                       (Some a, Some b, Some c', Some d) \<Rightarrow>
                         map_option (apfst ((@) (utf8_of_unit (((a * 16 + b) * 16 + c') * 16 + d))))
                           (parse_string_body rest)
                     | _ \<Rightarrow> None)
                | _ \<Rightarrow> None)
             else
               (case unescape e of
                  None \<Rightarrow> None
                | Some ch \<Rightarrow> map_option (apfst ((#) ch)) (parse_string_body es)))
      else if (of_char c :: nat) < 32 then None
      else map_option (apfst ((#) c)) (parse_string_body cs))"

definition is_digit :: "char \<Rightarrow> bool" where
  "is_digit c = (48 \<le> (of_char c :: nat) \<and> (of_char c :: nat) \<le> 57)"

text \<open>A number: \<open>-? (0 | [1-9][0-9]*) (. [0-9]+)? ([eE] [+-]? [0-9]+)?\<close>. Its text is
  kept as it is written.\<close>

definition parse_number :: "string \<Rightarrow> (string \<times> string) option" where
  "parse_number s =
     (let (sign, s1) = (case s of c # r \<Rightarrow> if c = CHR ''-'' then ([c], r) else ([], s) | [] \<Rightarrow> ([], s));
          ds = takeWhile is_digit s1;
          s2 = dropWhile is_digit s1
      in if ds = [] \<or> (hd ds = CHR ''0'' \<and> length ds > 1) then None
         else
           let (frac, s3) = (case s2 of
                               c # r \<Rightarrow> if c = CHR ''.'' then (c # takeWhile is_digit r, dropWhile is_digit r)
                                        else ([], s2)
                             | [] \<Rightarrow> ([], s2))
           in if frac = ''.'' then None
              else
                let (ex, s4) =
                      (case s3 of
                         c # r \<Rightarrow>
                           if c = CHR ''e'' \<or> c = CHR ''E'' then
                             (case r of
                                g # r' \<Rightarrow>
                                  if g = CHR ''+'' \<or> g = CHR ''-''
                                  then (c # g # takeWhile is_digit r', dropWhile is_digit r')
                                  else (c # takeWhile is_digit r, dropWhile is_digit r)
                              | [] \<Rightarrow> ([c], []))
                           else ([], s3)
                       | [] \<Rightarrow> ([], s3))
                in if ex \<noteq> [] \<and> \<not> is_digit (last ex) then None
                   else Some (sign @ ds @ frac @ ex, s4))"

text \<open>The recursive descent of \<open>JSON.parse\<close>. Every call on a nested value is made
  after at least one character was read, so the fuel \<open>length + 1\<close> given by
  \<open>JSON_parse\<close> is not used up on any text; \<open>None\<close> is the \<open>SyntaxError\<close>.\<close>

fun parse_value :: "nat \<Rightarrow> string \<Rightarrow> (json \<times> string) option"
  and parse_members :: "nat \<Rightarrow> string \<Rightarrow> (string \<times> json) list \<Rightarrow> (json \<times> string) option"
  and parse_elements :: "nat \<Rightarrow> string \<Rightarrow> json list \<Rightarrow> (json \<times> string) option" where
  "parse_value 0 s = None"
| "parse_value (Suc n) s =
     (case skip_ws s of
        [] \<Rightarrow> None
      | c # r \<Rightarrow>
          if c = CHR ''{'' then
            (case skip_ws r of
               [] \<Rightarrow> None
             | c1 # r1 \<Rightarrow> if c1 = CHR ''}'' then Some (JObject [], r1) else parse_members n r [])
          else if c = CHR ''['' then
            (case skip_ws r of
               [] \<Rightarrow> None
             | c1 # r1 \<Rightarrow> if c1 = CHR '']'' then Some (JArray [], r1) else parse_elements n r [])
          else if c = CHR 0x22 then map_option (apfst JString) (parse_string_body r)
          else if startsWith (c # r) ''true'' then Some (JBool True, drop 4 (c # r))
          else if startsWith (c # r) ''false'' then Some (JBool False, drop 5 (c # r))
          else if startsWith (c # r) ''null'' then Some (JNull, drop 4 (c # r))
          else map_option (apfst JNumber) (parse_number (c # r)))"
| "parse_members 0 s acc = None"
| "parse_members (Suc n) s acc =
     (case skip_ws s of
        [] \<Rightarrow> None
      | q # r \<Rightarrow>
          if q \<noteq> CHR 0x22 then None
          else
            (case parse_string_body r of
               None \<Rightarrow> None
             | Some (k, r1) \<Rightarrow>
                 (case skip_ws r1 of
                    [] \<Rightarrow> None
                  | colon # r2 \<Rightarrow>
                      if colon \<noteq> CHR '':'' then None
                      else
                        (case parse_value n r2 of
                           None \<Rightarrow> None
                         | Some (v, r3) \<Rightarrow>
                             (case skip_ws r3 of
                                [] \<Rightarrow> None
                              | d # r4 \<Rightarrow>
                                  if d = CHR '','' then parse_members n r4 (acc @ [(k, v)])
                                  else if d = CHR ''}'' then Some (JObject (acc @ [(k, v)]), r4)
                                  else None)))))"
| "parse_elements 0 s acc = None"
| "parse_elements (Suc n) s acc =
     (case parse_value n s of
        None \<Rightarrow> None
      | Some (v, r) \<Rightarrow>
          (case skip_ws r of
             [] \<Rightarrow> None
           | d # r1 \<Rightarrow>
               if d = CHR '','' then parse_elements n r1 (acc @ [v])
               else if d = CHR '']'' then Some (JArray (acc @ [v]), r1)
               else None))"

definition JSON_parse :: "string \<Rightarrow> json option" where
  "JSON_parse s =
     (case parse_value (length s + 1) s of
        None \<Rightarrow> None
      | Some (v, r) \<Rightarrow> if skip_ws r = [] then Some v else None)"

section \<open>Encryption of stored data (database-encryption.ts, class DatabaseEncryption)\<close>

record DatabaseEncryption =
  encryptionKey :: "string option"
  keyFile :: string

datatype encryption_error =
    NotInitialized
  | FailedToEncrypt
  | FailedToDecrypt

text \<open>What \<open>encryptData\<close> and \<open>decryptData\<close> take from the platform: the greatest
  length a string can have (\<open>buffer.constants.MAX_STRING_LENGTH\<close>), the text of
  \<open>new Date().toISOString()\<close>, and the bytes that \<open>Buffer.from\<close> makes of an array or of
  an object, or nothing where it throws.\<close>

record runtime =
  MAX_STRING_LENGTH :: nat
  toISOString_now :: string
  Buffer_from_object :: "json \<Rightarrow> string option"

text \<open>\<open>encryptData\<close>. The data is a JavaScript string, a sequence of code units, which
  \<open>Buffer.from(data, 'utf8')\<close> turns into bytes. The text that is returned is held by
  its bytes, as all text of JSON is in this theory; it is ASCII text, one byte for one
  code unit, when the time stamp is. \<open>toString('base64')\<close> and \<open>JSON.stringify\<close> throw
  when their result would be longer than a string can be, and the \<open>catch\<close> clause
  turns that into \<open>'Failed to encrypt data'\<close>.\<close>

definition encryptData ::
  "runtime \<Rightarrow> DatabaseEncryption \<Rightarrow> utf16 \<Rightarrow> encryption_error + string" where
  "encryptData rt de data =
     (case encryptionKey de of
        None \<Rightarrow> Inl NotInitialized
      | Some _ \<Rightarrow>
          let encoded = base64_encode (utf8_encode data) in
          if length encoded > MAX_STRING_LENGTH rt then Inl FailedToEncrypt
          else
            let result = JObject [(''encrypted'', JBool True), (''data'', JString encoded),
                                  (''timestamp'', JString (toISOString_now rt))];
                text = JSON_stringify result
            in if length text > MAX_STRING_LENGTH rt then Inl FailedToEncrypt else Inr text)"

text \<open>The property \<open>data\<close> of the parsed value: of an object, the last member with
  that key; \<open>undefined\<close> for any other value but \<open>null\<close>, whose properties cannot be
  read.\<close>

definition property_data :: "json \<Rightarrow> json option" where
  "property_data v = (case v of JObject ms \<Rightarrow> map_of (rev ms) ''data'' | _ \<Rightarrow> None)"

text \<open>\<open>Buffer.from(s, 'base64')\<close> reads the low byte of every code unit of \<open>s\<close>.\<close>

definition low_bytes :: "string \<Rightarrow> string" where
  "low_bytes s = map char_of (code_units s)"

text \<open>\<open>decryptData\<close>. \<open>Buffer.from(data, 'base64')\<close> throws for \<open>undefined\<close>, \<open>null\<close>, a
  number and a boolean, and every exception becomes \<open>'Failed to decrypt data'\<close>. The
  result of \<open>toString('utf8')\<close> is a JavaScript string again.\<close>

definition decryptData ::
  "runtime \<Rightarrow> DatabaseEncryption \<Rightarrow> string \<Rightarrow> encryption_error + utf16" where
  "decryptData rt de encryptedData =
     (case encryptionKey de of
        None \<Rightarrow> Inl NotInitialized
      | Some _ \<Rightarrow>
          (case JSON_parse encryptedData of
             None \<Rightarrow> Inl FailedToDecrypt
           | Some v \<Rightarrow>
               (case property_data v of
                  Some (JString d) \<Rightarrow> Inr (utf8_decode (base64_decode (low_bytes d)))
                | Some (JArray xs) \<Rightarrow>
                    (case Buffer_from_object rt (JArray xs) of
                       None \<Rightarrow> Inl FailedToDecrypt
                     | Some bytes \<Rightarrow> Inr (utf8_decode bytes))
                | Some (JObject ms) \<Rightarrow>
                    (case Buffer_from_object rt (JObject ms) of
                       None \<Rightarrow> Inl FailedToDecrypt
                     | Some bytes \<Rightarrow> Inr (utf8_decode bytes))
                | _ \<Rightarrow> Inl FailedToDecrypt)))"

section \<open>Vocabulary of the properties\<close>

text \<open>A plain segment is a file or directory name: not empty, not \<open>.\<close>, not \<open>..\<close> and
  free of slashes. A path lies under a root when the root's resolved segments open
  the path's.\<close>

definition plain :: "string \<Rightarrow> bool" where
  "plain s = (s \<noteq> [] \<and> s \<noteq> ''.'' \<and> s \<noteq> ''..'' \<and> CHR ''/'' \<notin> set s)"

definition under :: "string \<Rightarrow> string \<Rightarrow> string \<Rightarrow> bool" where
  "under c root p = prefix (resolve_segs c root) (resolve_segs c p)"

definition clamp :: "int \<Rightarrow> int \<Rightarrow> int \<Rightarrow> int" where
  "clamp lo hi x = max lo (min hi x)"

definition sum_of_subscores :: "ConfidenceMetrics \<Rightarrow> int" where
  "sum_of_subscores m =
     syntaxValidation m + testExecution m + patternAlignment m
       + memoryConsistency m + riskAssessment m + performanceImpact m"

definition within_ranges :: "ConfidenceMetrics \<Rightarrow> bool" where
  "within_ranges m =
     (0 \<le> syntaxValidation m \<and> syntaxValidation m \<le> 20
      \<and> 0 \<le> testExecution m \<and> testExecution m \<le> 25
      \<and> 0 \<le> patternAlignment m \<and> patternAlignment m \<le> 20
      \<and> 0 \<le> memoryConsistency m \<and> memoryConsistency m \<le> 15
      \<and> 0 \<le> riskAssessment m \<and> riskAssessment m \<le> 10
      \<and> 0 \<le> performanceImpact m \<and> performanceImpact m \<le> 10)"

text \<open>The environment and the project of the examples: the working directory is the
  project root \<open>/proj\<close>, the disk has no fault, and every external parser accepts.\<close>

definition env0 :: env where
  "env0 = \<lparr> cwd = ''/proj'', fault = (\<lambda>_. None), ts_diagnostics = (\<lambda>_. Some 0),
            js_parses = (\<lambda>_. True), python_parses = (\<lambda>_. True), clock = 0 \<rparr>"

definition manager0 :: SandboxManager where
  "manager0 = new_SandboxManager ''/proj''"

definition fs0 :: filesystem where
  "fs0 = [''/proj'' \<mapsto> Dir,
          ''/proj/.sentvibe'' \<mapsto> Dir,
          ''/proj/.sentvibe/sandbox'' \<mapsto> Dir,
          ''/proj/a.txt'' \<mapsto> File ''old'',
          ''/proj/.sentvibe/sandbox/a.txt'' \<mapsto> File ''new'',
          ''/proj/.sentvibe/sandbox/id_rsa.pem'' \<mapsto> File ''KEY'']"

definition proxy0 :: FileSystemProxy where
  "proxy0 = new_FileSystemProxy manager0"

text \<open>The example project with a mirror file whose only byte, \<open>0xFF\<close>, is not UTF-8.\<close>

definition fs_raw :: filesystem where
  "fs_raw = fs0(''/proj/.sentvibe/sandbox/raw.txt'' \<mapsto> File [CHR 0xFF])"

text \<open>The same environment with a disk that stops the write of \<open>/proj/a.txt\<close> after one
  byte and the write of \<open>/proj/id_rsa.pem\<close> before the first.\<close>

definition env_short :: env where
  "env_short = env0\<lparr> fault := (\<lambda>p. if p = ''/proj/a.txt'' then Some (Short 1)
                                    else if p = ''/proj/id_rsa.pem'' then Some (Short 0)
                                    else None) \<rparr>"

text \<open>The same environment with a disk that refuses to open \<open>/proj/a.txt\<close>.\<close>

definition env_refused :: env where
  "env_refused = env0\<lparr> fault := (\<lambda>p. if p = ''/proj/a.txt'' then Some Refused else None) \<rparr>"

text \<open>A project in which the process works two directories below the project root,
  and one whose root is \<open>/etc\<close>.\<close>

definition env_below :: env where
  "env_below = env0\<lparr> cwd := ''/proj/a/b'' \<rparr>"

definition fs_below :: filesystem where
  "fs_below = [''/proj'' \<mapsto> Dir, ''/proj/a'' \<mapsto> Dir, ''/proj/a/b'' \<mapsto> Dir,
               ''/proj/x.ts'' \<mapsto> File ''let x = 1'']"

definition env_etc :: env where
  "env_etc = env0\<lparr> cwd := ''/etc'' \<rparr>"

definition fs_etc :: filesystem where
  "fs_etc = [''/etc'' \<mapsto> Dir, ''/etc/passwd'' \<mapsto> File ''root:x:0:0'']"

text \<open>The same environment at a later time.\<close>

definition env_later :: env where
  "env_later = env0\<lparr> clock := 5 \<rparr>"

text \<open>An environment whose TypeScript compiler reports four diagnostics, and the
  example project with a test file for \<open>b.ts\<close>.\<close>

definition env_four :: env where
  "env_four = env0\<lparr> ts_diagnostics := (\<lambda>_. Some 4) \<rparr>"

definition fs_tested :: filesystem where
  "fs_tested = fs0(''/proj/b.test.ts'' \<mapsto> File ''test'')"

text \<open>The six names under which \<open>findTestFile\<close> looks for the tests of a file.\<close>

definition test_files :: "string \<Rightarrow> string list" where
  "test_files filePath =
     (let baseName = strip_source_ext filePath
      in [baseName @ ''.test.ts'', baseName @ ''.test.js'',
          baseName @ ''.spec.ts'', baseName @ ''.spec.js'',
          ''__tests__/'' @ baseName @ ''.test.ts'',
          ''__tests__/'' @ baseName @ ''.test.js''])"

text \<open>One position is reached from another when the matcher has moved forward over
  part of the remaining text.\<close>

definition reach :: "pos \<Rightarrow> pos \<Rightarrow> bool" where
  "reach x y = (pos_index x \<le> pos_index y
                \<and> int (length (pos_rest y)) = int (length (pos_rest x)) - (pos_index y - pos_index x))"

text \<open>An expression is at rest when it is global and its \<open>lastIndex\<close> is 0; the
  sanitizer is at rest when all its expressions are.\<close>

definition rested :: "regexp list \<Rightarrow> bool" where
  "rested res = list_all (\<lambda>re. global re \<and> lastIndex re = 0) res"

definition at_rest :: "ContentSanitizer \<Rightarrow> bool" where
  "at_rest cs = (rested (SENSITIVE_PATTERNS cs) \<and> rested (MALICIOUS_PATTERNS cs))"

text \<open>A session: the sanitizer after a sequence of calls, each with its content and
  label.\<close>

fun session :: "ContentSanitizer \<Rightarrow> (string \<times> string) list \<Rightarrow> ContentSanitizer" where
  "session cs [] = cs"
| "session cs ((content, filePath) # calls) = session (snd (sanitizeContent cs content filePath)) calls"

text \<open>The two contents of the examples: the line with an API key, and the call of
  \<open>eval\<close> followed by \<open>fs.unlink\<close>.\<close>

definition api_key_line :: string where
  "api_key_line = ''const apiKey = '' @ [CHR 0x22] @ ''sk-1234567890abcdef1234567890abcdef''
                    @ [CHR 0x22] @ '';''"

definition eval_unlink :: string where
  "eval_unlink = ''eval('' @ [CHR 0x22] @ ''danger'' @ [CHR 0x22] @ ''); fs.unlink(''
                   @ [CHR 0x22] @ ''x'' @ [CHR 0x22] @ '')''"

text \<open>A string is well formed when every surrogate in it is half of a pair: a high
  surrogate directly followed by a low one. \<open>scalar\<close> are the code points of such
  strings.\<close>

fun paired :: "nat list \<Rightarrow> bool" where
  "paired [] = True"
| "paired [u] = (\<not> surrogate u)"
| "paired (u # v # r) =
     (if high_surrogate u \<and> low_surrogate v then paired r
      else \<not> surrogate u \<and> paired (v # r))"

definition well_formed :: "utf16 \<Rightarrow> bool" where
  "well_formed s = paired (map unat s)"

definition scalar :: "nat \<Rightarrow> bool" where
  "scalar n = (n < 0x110000 \<and> \<not> surrogate n)"

text \<open>The object that \<open>encryptData\<close> writes and its text for a string \<open>x\<close>. The
  string is within the size ceiling when that text is not longer than a string can
  be.\<close>

definition envelope :: "string \<Rightarrow> string \<Rightarrow> json" where
  "envelope d t = JObject [(''encrypted'', JBool True), (''data'', JString d), (''timestamp'', JString t)]"

definition stored_text :: "runtime \<Rightarrow> utf16 \<Rightarrow> string" where
  "stored_text rt x =
     JSON_stringify (envelope (base64_encode (utf8_encode x)) (toISOString_now rt))"

definition within_ceiling :: "runtime \<Rightarrow> utf16 \<Rightarrow> bool" where
  "within_ceiling rt x = (length (stored_text rt x) \<le> MAX_STRING_LENGTH rt)"

text \<open>The characters that JSON text writes as they are and that are one byte and one
  code unit: printable ASCII without the quote and the backslash.\<close>

definition plain_ascii :: "char \<Rightarrow> bool" where
  "plain_ascii c = (32 < (of_char c :: nat) \<and> (of_char c :: nat) < 128
                    \<and> c \<noteq> CHR 0x22 \<and> c \<noteq> CHR 0x5C)"

text \<open>An initialised \<open>DatabaseEncryption\<close>, one without its key, and a platform: the
  string length of V8 on 64 bits and a time stamp, for any \<open>Buffer.from\<close>.\<close>

definition database0 :: DatabaseEncryption where
  "database0 = \<lparr>encryptionKey = Some ''0123456789abcdef0123456789abcdef'',
                 keyFile = ''/proj/.sentvibe/.encryption-key''\<rparr>"

definition database_new :: DatabaseEncryption where
  "database_new = \<lparr>encryptionKey = None, keyFile = ''/proj/.sentvibe/.encryption-key''\<rparr>"

definition runtime0 :: "(json \<Rightarrow> string option) \<Rightarrow> runtime" where
  "runtime0 from_object = \<lparr>MAX_STRING_LENGTH = 536870888,
                            toISOString_now = ''2025-01-01T00:00:00.000Z'',
                            Buffer_from_object = from_object\<rparr>"

section \<open>Facts about UTF-8\<close>

lemma of_char_char_of: "n < 256 \<Longrightarrow> (of_char (char_of n) :: nat) = n"
  by simp

lemma decode_point1:
  assumes "n < 0x80"
  shows "decode_bytes (map of_char (utf8_of_point n) @ r) = n # decode_bytes r"
  using assms by (simp add: utf8_of_point_def decode_bytes_def)

lemma decode_point2:
  assumes "0x80 \<le> n" "n < 0x800"
  shows "decode_bytes (map of_char (utf8_of_point n) @ r) = n # decode_bytes r"
proof -
  define a c where "a = n div 64" and "c = n mod 64"
  have n: "n = a * 64 + c" and c: "c < 64" by (simp_all add: a_def c_def)
  have a: "2 \<le> a" "a < 32" using assms n c by linarith+
  have b0: "(of_char (char_of (0xC0 + a)) :: nat) = 0xC0 + a"
    and b1: "(of_char (char_of (0x80 + c)) :: nat) = 0x80 + c"
    using a c by simp_all
  have "utf8_of_point n = [char_of (0xC0 + a), char_of (0x80 + c)]"
    using assms by (simp add: utf8_of_point_def a_def c_def)
  then show ?thesis using a c by (simp add: b0 b1 trail_def n decode_bytes_def)
qed

lemma decode_point3:
  assumes "0x800 \<le> n" "n < 0x10000" "\<not> surrogate n"
  shows "decode_bytes (map of_char (utf8_of_point n) @ r) = n # decode_bytes r"
proof -
  define a b c where "a = n div 4096" and "b = n div 64 mod 64" and "c = n mod 64"
  have c: "c < 64" and b: "b < 64" by (simp_all add: b_def c_def)
  have "n = (n div 64) * 64 + c" by (simp add: c_def)
  moreover have "n div 64 = (n div 64 div 64) * 64 + b" by (simp add: b_def)
  moreover have "n div 64 div 64 = a" by (simp add: a_def div_mult2_eq[symmetric])
  ultimately have n: "n = a * 4096 + b * 64 + c" by linarith
  have a: "a < 16" using assms n by linarith
  have lo: "a = 0 \<Longrightarrow> 32 \<le> b" using assms n c by linarith
  have hi: "a = 13 \<Longrightarrow> b < 32" using assms n b c by (simp add: surrogate_def)
  have b0: "(of_char (char_of (0xE0 + a)) :: nat) = 0xE0 + a"
    and b1: "(of_char (char_of (0x80 + b)) :: nat) = 0x80 + b"
    and b2: "(of_char (char_of (0x80 + c)) :: nat) = 0x80 + c"
    using a b c by simp_all
  have "utf8_of_point n = [char_of (0xE0 + a), char_of (0x80 + b), char_of (0x80 + c)]"
    using assms by (simp add: utf8_of_point_def a_def b_def c_def)
  moreover have "second_range (0xE0 + a) (0x80 + b)"
    using lo hi a b by (auto simp add: second_range_def trail_def)
  ultimately show ?thesis using a b c by (simp add: b0 b1 b2 trail_def n decode_bytes_def)
qed

lemma decode_point4:
  assumes "0x10000 \<le> n" "n < 0x110000"
  shows "decode_bytes (map of_char (utf8_of_point n) @ r) = n # decode_bytes r"
proof -
  define a b c d where "a = n div 262144" and "b = n div 4096 mod 64"
    and "c = n div 64 mod 64" and "d = n mod 64"
  have d: "d < 64" and c: "c < 64" and b: "b < 64" by (simp_all add: b_def c_def d_def)
  have "n = (n div 64) * 64 + d" by (simp add: d_def)
  moreover have "n div 64 = (n div 64 div 64) * 64 + c" by (simp add: c_def)
  moreover have "n div 64 div 64 = n div 4096" by (simp add: div_mult2_eq[symmetric])
  moreover have "n div 4096 = (n div 4096 div 64) * 64 + b" by (simp add: b_def)
  moreover have "n div 4096 div 64 = a" by (simp add: a_def div_mult2_eq[symmetric])
  ultimately have n: "n = a * 262144 + b * 4096 + c * 64 + d" by linarith
  have a: "a < 5" using assms n by linarith
  have lo: "a = 0 \<Longrightarrow> 16 \<le> b" using assms n c d by linarith
  have hi: "a = 4 \<Longrightarrow> b < 16" using assms n b c d by linarith
  have b0: "(of_char (char_of (0xF0 + a)) :: nat) = 0xF0 + a"
    and b1: "(of_char (char_of (0x80 + b)) :: nat) = 0x80 + b"
    and b2: "(of_char (char_of (0x80 + c)) :: nat) = 0x80 + c"
    and b3: "(of_char (char_of (0x80 + d)) :: nat) = 0x80 + d"
    using a b c d by simp_all
  have "utf8_of_point n = [char_of (0xF0 + a), char_of (0x80 + b), char_of (0x80 + c),
                           char_of (0x80 + d)]"
    using assms by (simp add: utf8_of_point_def a_def b_def c_def d_def)
  moreover have "second_range (0xF0 + a) (0x80 + b)"
    using lo hi a b by (auto simp add: second_range_def trail_def)
  ultimately show ?thesis using a b c d by (simp add: b0 b1 b2 b3 trail_def n decode_bytes_def)
qed

lemma decode_point:
  assumes "scalar n"
  shows "decode_bytes (map of_char (utf8_of_point n) @ r) = n # decode_bytes r"
proof -
  consider "n < 0x80" | "0x80 \<le> n" "n < 0x800" | "0x800 \<le> n" "n < 0x10000"
    | "0x10000 \<le> n" "n < 0x110000"
    using assms unfolding scalar_def by linarith
  then show ?thesis
    using assms decode_point1 decode_point2 decode_point3 decode_point4
    by cases (simp_all add: scalar_def)
qed

lemma decode_points:
  "list_all scalar ns \<Longrightarrow> decode_bytes (map of_char (concat (map utf8_of_point ns))) = ns"
proof (induction ns)
  case Nil
  show ?case by (simp add: decode_bytes_def)
next
  case (Cons n ns)
  then have "decode_bytes (map of_char (utf8_of_point n) @ map of_char (concat (map utf8_of_point ns)))
             = n # ns"
    using decode_point[of n] by simp
  then show ?case by simp
qed

lemma units_of_pair:
  assumes "high_surrogate u" "low_surrogate v"
  shows "units_of_point (0x10000 + (u - 0xD800) * 1024 + (v - 0xDC00)) = [u, v]"
    and "scalar (0x10000 + (u - 0xD800) * 1024 + (v - 0xDC00))"
proof -
  define a b where "a = u - 0xD800" and "b = v - 0xDC00"
  have a: "a < 1024" "u = 0xD800 + a" and b: "b < 1024" "v = 0xDC00 + b"
    using assms by (auto simp add: a_def b_def high_surrogate_def low_surrogate_def)
  have "(a * 1024 + b) div 1024 = a" "(a * 1024 + b) mod 1024 = b" using b by simp_all
  then show "units_of_point (0x10000 + (u - 0xD800) * 1024 + (v - 0xDC00)) = [u, v]"
    using a b by (simp add: units_of_point_def)
  show "scalar (0x10000 + (u - 0xD800) * 1024 + (v - 0xDC00))"
    using a b by (simp add: scalar_def surrogate_def)
qed

lemma code_points_single:
  assumes "\<not> (high_surrogate u \<and> low_surrogate v)"
  shows "code_points (u # v # r) = (if surrogate u then 0xFFFD else u) # code_points (v # r)"
    and "paired (u # v # r) = (\<not> surrogate u \<and> paired (v # r))"
  using assms by (simp_all only: code_points.simps paired.simps if_False)

lemma code_points_pair:
  assumes "high_surrogate u \<and> low_surrogate v"
  shows "code_points (u # v # r) = (0x10000 + (u - 0xD800) * 1024 + (v - 0xDC00)) # code_points r"
    and "paired (u # v # r) = paired r"
  using assms by simp_all

lemma code_points_paired:
  "paired us \<Longrightarrow> list_all (\<lambda>u. u < 0x10000) us \<Longrightarrow>
   list_all scalar (code_points us) \<and> concat (map units_of_point (code_points us)) = us"
proof (induction us rule: code_points.induct)
  case 1
  show ?case by simp
next
  case (2 u)
  then show ?case by (simp add: scalar_def units_of_point_def)
next
  case (3 u v r)
  show ?case
  proof (cases "high_surrogate u \<and> low_surrogate v")
    case True
    have "paired r" "list_all (\<lambda>u. u < 0x10000) r"
      using 3(3,4) code_points_pair(2)[OF True] by simp_all
    then have "list_all scalar (code_points r) \<and> concat (map units_of_point (code_points r)) = r"
      using 3(1)[OF True] by simp
    then show ?thesis
      unfolding code_points_pair(1)[OF True] using True units_of_pair[of u v] by simp
  next
    case False
    have u: "\<not> surrogate u" "u < 0x10000" and "paired (v # r)" "list_all (\<lambda>u. u < 0x10000) (v # r)"
      using 3(3,4) code_points_single(2)[OF False] by simp_all
    then have "list_all scalar (code_points (v # r))
               \<and> concat (map units_of_point (code_points (v # r))) = v # r"
      using 3(2)[OF False] by simp
    moreover have "scalar u" "units_of_point u = [u]"
      using u by (simp_all add: scalar_def units_of_point_def)
    ultimately show ?thesis
      unfolding code_points_single(1)[OF False] using u by simp
  qed
qed

lemma units_bounded: "list_all (\<lambda>u. u < 0x10000) (map unat (s :: utf16))"
proof -
  have "unat u < 0x10000" for u :: "16 word"
    using unsigned_less[of u, where ?'a = nat] by simp
  then show ?thesis by (simp add: list_all_iff)
qed

lemma utf8_roundtrip: "well_formed s \<Longrightarrow> utf8_decode (utf8_encode s) = s"
proof -
  assume "well_formed s"
  then have p: "list_all scalar (code_points (map unat s))"
    and q: "concat (map units_of_point (code_points (map unat s))) = map unat s"
    using code_points_paired[of "map unat s"] units_bounded[of s] by (simp_all add: well_formed_def)
  have "map of_nat (map unat s) = s" by (simp add: map_idI)
  then show ?thesis by (simp add: utf8_decode_def utf8_encode_def decode_points[OF p] q)
qed

lemma utf8_of_point_length: "1 \<le> length (utf8_of_point n)" "0x10000 \<le> n \<Longrightarrow> 2 \<le> length (utf8_of_point n)"
  by (simp_all add: utf8_of_point_def)

lemma code_points_length: "length us \<le> length (concat (map utf8_of_point (code_points us)))"
proof (induction us rule: code_points.induct)
  case 1
  show ?case by simp
next
  case (2 u)
  show ?case using utf8_of_point_length(1)[of "if surrogate u then 0xFFFD else u"] by simp
next
  case (3 u v r)
  show ?case
  proof (cases "high_surrogate u \<and> low_surrogate v")
    case True
    show ?thesis
      unfolding code_points_pair(1)[OF True]
      using 3(1)[OF True] utf8_of_point_length(2)[of "0x10000 + (u - 0xD800) * 1024 + (v - 0xDC00)"]
      by simp
  next
    case False
    show ?thesis
      unfolding code_points_single(1)[OF False]
      using 3(2)[OF False] utf8_of_point_length(1)[of "if surrogate u then 0xFFFD else u"]
      by simp
  qed
qed

lemma utf8_encode_length: "length s \<le> length (utf8_encode s)"
  using code_points_length[of "map unat s"] by (simp add: utf8_encode_def)

text \<open>ASCII text is its own UTF-8 text; this is also how such text is evaluated.\<close>

lemma code_points_Cons: "\<not> surrogate u \<Longrightarrow> code_points (u # us) = u # code_points us"
  by (cases us) (auto simp add: high_surrogate_def surrogate_def)

lemma ascii_nat: "((of_char c :: int) < 128) = ((of_char c :: nat) < 128)"
proof -
  have "(of_char c :: int) = int (of_char c)" by (simp add: of_char_def)
  then show ?thesis by simp
qed

lemma utf8_decode_ascii:
  assumes "(of_char c :: nat) < 128"
  shows "utf8_decode (c # s) = of_nat (of_char c) # utf8_decode s"
  using assms by (simp add: utf8_decode_def decode_bytes_def units_of_point_def)

lemma utf8_encode_ascii:
  assumes "n < 128"
  shows "utf8_encode (of_nat n # ws) = char_of n # utf8_encode ws"
proof -
  have "unat (of_nat n :: 16 word) = n" using assms by (simp add: unat_of_nat)
  moreover have "\<not> surrogate n" using assms by (simp add: surrogate_def)
  ultimately show ?thesis using assms
    by (simp add: utf8_encode_def code_points_Cons utf8_of_point_def)
qed

lemma utf8_text_ascii: "list_all (\<lambda>c. (of_char c :: int) < 128) s \<Longrightarrow> utf8_text s = s"
proof (induction s)
  case Nil
  show ?case by (simp add: utf8_text_def utf8_decode_def utf8_encode_def decode_bytes_def)
next
  case (Cons c s)
  then have c: "(of_char c :: nat) < 128" and s: "utf8_text s = s" by (simp_all add: ascii_nat)
  show ?case
    using s by (simp add: utf8_text_def utf8_decode_ascii[OF c] utf8_encode_ascii[OF c])
qed

lemma utf8_text_code [code]:
  "utf8_text s = (if list_all (\<lambda>c. (of_char c :: int) < 128) s then s
                  else utf8_encode (utf8_decode s))"
  by (simp add: utf8_text_ascii) (simp add: utf8_text_def)

text \<open>Text that was encoded is well-formed UTF-8: reading it gives the same bytes.\<close>

lemma code_points_scalar: "list_all (\<lambda>u. u < 0x10000) us \<Longrightarrow> list_all scalar (code_points us)"
proof (induction us rule: code_points.induct)
  case 1
  show ?case by simp
next
  case (2 u)
  then show ?case by (simp add: scalar_def surrogate_def)
next
  case (3 u v r)
  show ?case
  proof (cases "high_surrogate u \<and> low_surrogate v")
    case True
    then show ?thesis
      unfolding code_points_pair(1)[OF True] using 3(1)[OF True] 3(3) units_of_pair(2)[of u v] by simp
  next
    case False
    have "scalar (if surrogate u then 0xFFFD else u)" using 3(3) by (simp add: scalar_def surrogate_def)
    then show ?thesis
      unfolding code_points_single(1)[OF False] using 3(2)[OF False] 3(3) by simp
  qed
qed

lemma units_of_scalar:
  assumes "scalar n"
  shows "list_all (\<lambda>u. u < 0x10000) (units_of_point n)"
    and "code_points (units_of_point n @ us) = n # code_points us"
proof -
  show "list_all (\<lambda>u. u < 0x10000) (units_of_point n)"
    using assms by (auto simp: units_of_point_def scalar_def)
  show "code_points (units_of_point n @ us) = n # code_points us"
  proof (cases "n < 0x10000")
    case True
    then show ?thesis using assms by (simp add: units_of_point_def scalar_def code_points_Cons)
  next
    case False
    define a b where "a = (n - 0x10000) div 1024" and "b = (n - 0x10000) mod 1024"
    have n: "n = 0x10000 + a * 1024 + b" and b: "b < 1024" using False by (simp_all add: a_def b_def)
    have a: "a < 1024" using assms n by (simp add: scalar_def)
    have "units_of_point n = [0xD800 + a, 0xDC00 + b]"
      using False by (simp add: units_of_point_def a_def b_def)
    then show ?thesis using a b n by (simp add: high_surrogate_def low_surrogate_def)
  qed
qed

lemma code_points_units:
  "list_all scalar ns \<Longrightarrow> code_points (concat (map units_of_point ns)) = ns"
  by (induction ns) (simp_all add: units_of_scalar(2))

lemma units_of_points_bounded:
  "list_all scalar ns \<Longrightarrow> list_all (\<lambda>u. u < 0x10000) (concat (map units_of_point ns))"
  by (induction ns) (simp_all add: units_of_scalar(1))

lemma unat_of_nat_units:
  "list_all (\<lambda>u. u < 0x10000) us \<Longrightarrow> map unat (map of_nat us :: utf16) = us"
  by (induction us) (simp_all add: unat_of_nat)

lemma utf8_text_encode: "utf8_text (utf8_encode s) = utf8_encode s"
proof -
  let ?ns = "code_points (map unat s)"
  have sc: "list_all scalar ?ns" using units_bounded by (rule code_points_scalar)
  have "decode_bytes (map of_char (utf8_encode s)) = ?ns"
    using decode_points[OF sc] by (simp add: utf8_encode_def)
  then have "utf8_decode (utf8_encode s) = map of_nat (concat (map units_of_point ?ns))"
    by (simp add: utf8_decode_def)
  then have "utf8_text (utf8_encode s)
             = concat (map utf8_of_point (code_points (concat (map units_of_point ?ns))))"
    using unat_of_nat_units[OF units_of_points_bounded[OF sc]]
    by (simp add: utf8_text_def utf8_encode_def)
  then show ?thesis using code_points_units[OF sc] by (simp add: utf8_encode_def)
qed

section \<open>Facts about paths\<close>

lemma split_on_nonempty: "split_on d s \<noteq> []"
  by (induction s) (auto split: list.splits)

lemma split_on_no_sep: "list_all (\<lambda>w. d \<notin> set w) (split_on d s)"
  by (induction s) (auto split: list.splits)

lemma split_on_append_sep:
  "split_on d (a @ d # b) = split_on d a @ split_on d b"
proof (induction a)
  case Nil then show ?case by simp
next
  case (Cons c a)
  then show ?case using split_on_nonempty[of d a]
    by (cases "split_on d a") auto
qed

lemma split_on_sepfree: "d \<notin> set w \<Longrightarrow> split_on d w = [w]"
  by (induction w) auto

lemma split_on_join:
  "segs \<noteq> [] \<Longrightarrow> list_all (\<lambda>w. CHR ''/'' \<notin> set w) segs \<Longrightarrow> split_on CHR ''/'' (join_with ''/'' segs) = segs"
proof (induction segs rule: induct_list012)
  case 1 then show ?case by simp
next
  case (2 x) then show ?case by (simp add: split_on_sepfree)
next
  case (3 x y ys)
  have "split_on CHR ''/'' (x @ CHR ''/'' # join_with ''/'' (y # ys)) = split_on CHR ''/'' x @ split_on CHR ''/'' (join_with ''/'' (y # ys))"
    by (rule split_on_append_sep)
  then show ?case using 3 by (simp add: split_on_sepfree)
qed

lemma normalize_segs_plain:
  "list_all plain xs \<Longrightarrow> normalize_segs allow acc xs = rev acc @ xs"
  by (induction xs arbitrary: acc) (auto simp: plain_def)

lemma normalize_segs_append:
  "normalize_segs allow acc (xs @ ys) = normalize_segs allow (rev (normalize_segs allow acc xs)) ys"
  by (induction allow acc xs rule: normalize_segs.induct) (auto split: list.splits)

lemma normalize_segs_False_plain:
  "list_all plain acc \<Longrightarrow> list_all (\<lambda>w. CHR ''/'' \<notin> set w) xs \<Longrightarrow>
   list_all plain (normalize_segs False acc xs)"
proof (induction xs arbitrary: acc)
  case Nil
  then show ?case by (simp add: list_all_iff)
next
  case (Cons s ss)
  show ?case
  proof (cases "s = [] \<or> s = ''.''")
    case True
    then show ?thesis using Cons by auto
  next
    case False
    show ?thesis
    proof (cases "s = ''..''")
      case True
      then show ?thesis using Cons by (cases acc) auto
    next
      case F2: False
      have "plain s" using False F2 Cons.prems(2) by (simp add: plain_def)
      then show ?thesis using False F2 Cons by simp
    qed
  qed
qed

lemma resolve_segs_plain: "list_all plain (resolve_segs c p)"
  unfolding resolve_segs_def
  by (rule normalize_segs_False_plain) (simp_all add: split_on_no_sep)

lemma plain_no_sep: "list_all plain segs \<Longrightarrow> list_all (\<lambda>w. CHR ''/'' \<notin> set w) segs"
  by (induction segs) (auto simp: plain_def)

lemma resolve_segs_of_joined:
  assumes "list_all plain segs"
  shows "resolve_segs c (CHR ''/'' # join_with ''/'' segs) = segs"
proof (cases "segs = []")
  case True
  then show ?thesis by (simp add: resolve_segs_def isAbsolute_def)
next
  case False
  have nosep: "list_all (\<lambda>w. CHR ''/'' \<notin> set w) segs" using assms by (rule plain_no_sep)
  have "split_on CHR ''/'' ((CHR ''/'' # join_with ''/'' segs) @ ''/'')
        = [] # split_on CHR ''/'' (join_with ''/'' segs @ ''/'')" by simp
  also have "split_on CHR ''/'' (join_with ''/'' segs @ ''/'') = split_on CHR ''/'' (join_with ''/'' segs) @ [[]]"
    using split_on_append_sep[of "CHR ''/''" "join_with ''/'' segs" "[]"] by simp
  also have "split_on CHR ''/'' (join_with ''/'' segs) = segs" using False nosep by (rule split_on_join)
  finally have sp: "split_on CHR ''/'' ((CHR ''/'' # join_with ''/'' segs) @ ''/'') = [] # segs @ [[]]" .
  have "normalize_segs False [] ([] # segs @ [[]]) = normalize_segs False [] (segs @ [[]])" by simp
  also have "\<dots> = normalize_segs False (rev (normalize_segs False [] segs)) [[]]" by (rule normalize_segs_append)
  also have "normalize_segs False [] segs = segs" using normalize_segs_plain[OF assms, of False "[]"] by simp
  finally have "normalize_segs False [] ([] # segs @ [[]]) = segs" by simp
  then show ?thesis using sp by (simp add: resolve_segs_def isAbsolute_def)
qed

lemma resolve_segs_resolve: "resolve_segs c (resolve c p) = resolve_segs c p"
  unfolding resolve_def by (rule resolve_segs_of_joined) (rule resolve_segs_plain)

lemma common_prefix_len_le: "common_prefix_len f t \<le> length f"
  by (induction f t rule: common_prefix_len.induct) auto

lemma common_prefix_len_full: "common_prefix_len f t = length f \<Longrightarrow> prefix f t"
  by (induction f t rule: common_prefix_len.induct) (auto split: if_splits)

lemma join_with_dotdot: "startsWith (join_with ''/'' (''..'' # xs)) ''..''"
  by (cases xs) (auto simp: startsWith_def)

lemma relative_outside:
  assumes "\<not> prefix (resolve_segs c root) (resolve_segs c p)"
  shows "startsWith (relative c (resolve c root) (resolve c p)) ''..''"
proof -
  let ?f = "resolve_segs c root" and ?t = "resolve_segs c p"
  have "common_prefix_len ?f ?t \<noteq> length ?f" using assms common_prefix_len_full by blast
  then have "length ?f - common_prefix_len ?f ?t > 0" using common_prefix_len_le[of ?f ?t] by simp
  then obtain n where "length ?f - common_prefix_len ?f ?t = Suc n" by (cases "length ?f - common_prefix_len ?f ?t") auto
  then show ?thesis
    by (simp add: relative_def resolve_segs_resolve Let_def join_with_dotdot)
qed

lemma split_on_snoc_sep: "split_on d (a @ [d]) = split_on d a @ [[]]"
  using split_on_append_sep[of d a "[]"] by simp

lemma normalize_segs_snoc_empty: "normalize_segs allow acc (xs @ [[]]) = normalize_segs allow acc xs"
  by (simp add: normalize_segs_append)

lemma resolve_segs_abs:
  assumes "isAbsolute p"
  shows "resolve_segs c p = normalize_segs False [] (split_on CHR ''/'' p)"
proof -
  have "p \<noteq> []" using assms by (auto simp: isAbsolute_def)
  then have "resolve_segs c p = normalize_segs False [] (split_on CHR ''/'' (p @ ''/''))"
    using assms by (simp add: resolve_segs_def)
  then show ?thesis by (simp add: split_on_snoc_sep normalize_segs_snoc_empty)
qed

lemma under_resolve: "under c root (resolve c p) = under c root p"
  by (simp add: under_def resolve_segs_resolve)

text \<open>Where the walk of the operating system arrives, \<open>path.resolve\<close> arrives too:
  without symbolic links the two differ only in the errors of the walk.\<close>

lemma walk_lexical:
  "''..'' \<notin> set at \<Longrightarrow> walk fs at cs = Inr segs \<Longrightarrow> segs = normalize_segs False (rev at) cs"
proof (induction cs arbitrary: at)
  case Nil
  then show ?case by simp
next
  case (Cons c cs)
  from Cons.prems(2) have d: "node_at fs at = Some Dir"
    by (auto split: option.splits node.splits)
  let ?next = "if c = [] \<or> c = ''.'' then at else if c = ''..'' then butlast at else at @ [c]"
  have w: "walk fs ?next cs = Inr segs" using Cons.prems(2) d by simp
  have n: "''..'' \<notin> set ?next" using Cons.prems(1) by (auto dest: in_set_butlastD)
  have ih: "segs = normalize_segs False (rev ?next) cs" using Cons.IH[OF n w] .
  show ?case
  proof (cases "c = [] \<or> c = ''.''")
    case True
    then show ?thesis using ih by auto
  next
    case False
    show ?thesis
    proof (cases "c = ''..''")
      case True
      show ?thesis
      proof (cases at rule: rev_cases)
        case Nil
        then show ?thesis using ih True by simp
      next
        case (snoc as a)
        then have "a \<noteq> ''..''" using Cons.prems(1) by auto
        then show ?thesis using ih True snoc by simp
      qed
    next
      case F2: False
      then show ?thesis using ih False by simp
    qed
  qed
qed

lemma resolve_segs_empty: "resolve_segs c [] = normalize_segs False [] (split_on CHR ''/'' c)"
  by (simp add: resolve_segs_def split_on_snoc_sep normalize_segs_snoc_empty)

lemma resolve_segs_rel:
  assumes "p \<noteq> []" "\<not> isAbsolute p"
  shows "resolve_segs c p = normalize_segs False (rev (resolve_segs c [])) (split_on CHR ''/'' p)"
proof -
  let ?N = "normalize_segs False [] (split_on CHR ''/'' c)"
  have "c @ ''/'' @ p @ ''/'' = c @ CHR ''/'' # (p @ ''/'')" by simp
  then have "split_on CHR ''/'' (c @ ''/'' @ p @ ''/'')
             = split_on CHR ''/'' c @ (split_on CHR ''/'' p @ [[]])"
    by (simp add: split_on_append_sep)
  then have "resolve_segs c p = normalize_segs False [] (split_on CHR ''/'' c @ (split_on CHR ''/'' p @ [[]]))"
    using assms by (simp add: resolve_segs_def)
  also have "\<dots> = normalize_segs False (rev ?N) (split_on CHR ''/'' p @ [[]])"
    by (rule normalize_segs_append)
  also have "\<dots> = normalize_segs False (rev ?N) (split_on CHR ''/'' p)"
    by (rule normalize_segs_snoc_empty)
  finally show ?thesis by (simp only: resolve_segs_empty)
qed

lemma plain_no_dotdot: "list_all plain xs \<Longrightarrow> ''..'' \<notin> set xs"
  by (induction xs) (auto simp: plain_def)

lemma locate_resolve:
  assumes "locate e fs p = Inr segs"
  shows "path_of segs = resolve (cwd e) p" and "segs = resolve_segs (cwd e) p"
proof -
  have ne: "p \<noteq> []" using assms by (auto simp: locate_def split: if_splits)
  show s: "segs = resolve_segs (cwd e) p"
  proof (cases "isAbsolute p")
    case True
    then have "walk fs [] (split_on CHR ''/'' p) = Inr segs" using assms ne by (simp add: locate_def)
    then have "segs = normalize_segs False (rev []) (split_on CHR ''/'' p)"
      by (intro walk_lexical) simp_all
    then show ?thesis using True by (simp add: resolve_segs_abs)
  next
    case False
    then have w: "walk fs (resolve_segs (cwd e) []) (split_on CHR ''/'' p) = Inr segs"
      using assms ne by (simp add: locate_def)
    have "''..'' \<notin> set (resolve_segs (cwd e) [])"
      using resolve_segs_plain by (rule plain_no_dotdot)
    then have "segs = normalize_segs False (rev (resolve_segs (cwd e) [])) (split_on CHR ''/'' p)"
      using w by (rule walk_lexical)
    then show ?thesis using False ne by (simp add: resolve_segs_rel)
  qed
  then show "path_of segs = resolve (cwd e) p" by (simp add: path_of_def resolve_def)
qed

text \<open>The path \<open>../../etc/passwd\<close> resolves to a path that ends with \<open>/etc/passwd\<close>,
  whatever the working directory is; its extension, taken from the last dot on, then
  holds a slash or is empty.\<close>

lemma normalize_up_up_etc_passwd:
  assumes "''..'' \<notin> set acc"
  shows "\<exists>X. normalize_segs False acc [''..'', ''..'', ''etc'', ''passwd''] = X @ [''etc'', ''passwd'']"
proof (cases acc)
  case Nil
  then show ?thesis by simp
next
  case (Cons a as)
  then have a: "a \<noteq> ''..''" using assms by auto
  show ?thesis
  proof (cases as)
    case Nil
    then show ?thesis using Cons a by simp
  next
    case (Cons b bs)
    then have "b \<noteq> ''..''" using assms \<open>acc = a # as\<close> by auto
    then show ?thesis using Cons \<open>acc = a # as\<close> a by simp
  qed
qed

lemma join_with_snoc: "xs \<noteq> [] \<Longrightarrow> join_with sep (xs @ [y]) = join_with sep xs @ sep @ y"
  by (induction xs rule: induct_list012) auto

lemma resolve_etc_passwd: "\<exists>Y. resolve c ''../../etc/passwd'' = Y @ ''/etc/passwd''"
proof -
  have "''..'' \<notin> set (resolve_segs c [])" using resolve_segs_plain by (rule plain_no_dotdot)
  then obtain X where "normalize_segs False (rev (resolve_segs c []))
      [''..'', ''..'', ''etc'', ''passwd''] = X @ [''etc'', ''passwd'']"
    using normalize_up_up_etc_passwd[of "rev (resolve_segs c [])"] by auto
  then have r: "resolve_segs c ''../../etc/passwd'' = X @ [''etc'', ''passwd'']"
    by (simp add: resolve_segs_rel isAbsolute_def)
  have "join_with ''/'' ((X @ [''etc'']) @ [''passwd'']) = join_with ''/'' (X @ [''etc'']) @ ''/passwd''"
    using join_with_snoc[where xs = "X @ [''etc'']" and y = "''passwd''" and sep = "''/''"] by simp
  moreover have "CHR ''/'' # join_with ''/'' (X @ [''etc'']) = (CHR ''/'' # join_with ''/'' X) @ (if X = [] then [] else ''/'') @ ''etc''"
    by (cases "X = []") (simp_all add: join_with_snoc)
  ultimately have "resolve c ''../../etc/passwd''
      = ((CHR ''/'' # join_with ''/'' X) @ (if X = [] then [] else ''/'') @ ''etc'') @ ''/passwd''"
    using r by (simp add: resolve_def)
  then show ?thesis
    by (cases "X = []") (auto intro: exI[of _ "[]"] exI[of _ "CHR ''/'' # join_with ''/'' X"])
qed

section \<open>Facts about the access control\<close>

text \<open>The extension of a path that ends with \<open>/etc/passwd\<close> is empty or holds a slash,
  and so is not among the allowed extensions.\<close>

lemma toLowerCase_keeps_slash: "CHR ''/'' \<in> set s \<Longrightarrow> CHR ''/'' \<in> set (toLowerCase s)"
proof (induction s rule: toLowerCase.induct)
  case (1 a b c s)
  show ?case
  proof (cases "a = CHR 0xE2 \<and> b = CHR 0x84 \<and> c = CHR 0xAA")
    case True
    then have "CHR ''/'' \<in> set s" using 1(3) by auto
    then show ?thesis using True 1(1) by simp
  next
    case False
    show ?thesis
    proof (cases "a = CHR ''/''")
      case True
      then show ?thesis using False by (auto simp: toLowerCase_char_def)
    next
      case F2: False
      then have "CHR ''/'' \<in> set (b # c # s)" using 1(3) by auto
      then show ?thesis using False 1(2) by auto
    qed
  qed
qed (auto simp: toLowerCase_char_def)

lemma allowed_no_slash:
  "x \<in> set (allowedExtensions (new_FileAccessControl e root)) \<Longrightarrow> x \<noteq> [] \<and> CHR ''/'' \<notin> set x"
  by (auto simp: new_FileAccessControl_def)

lemma extension_etc_passwd:
  "getFileExtension (Y @ ''/etc/passwd'') \<notin> set (allowedExtensions (new_FileAccessControl e root))"
proof (cases "CHR ''.'' \<in> set (Y @ ''/etc/passwd'')")
  case False
  then have "getFileExtension (Y @ ''/etc/passwd'') = []" by (simp add: getFileExtension_def)
  then show ?thesis using allowed_no_slash[of "[]" e root] by auto
next
  case True
  have "takeWhile (\<lambda>c. c \<noteq> CHR ''.'') (rev (Y @ ''/etc/passwd''))
        = rev ''/etc/passwd'' @ takeWhile (\<lambda>c. c \<noteq> CHR ''.'') (rev Y)"
    by simp
  then have "CHR ''/'' \<in> set (CHR ''.'' # rev (takeWhile (\<lambda>c. c \<noteq> CHR ''.'') (rev (Y @ ''/etc/passwd''))))"
    by simp
  then have "CHR ''/'' \<in> set (toLowerCase (CHR ''.'' # rev (takeWhile (\<lambda>c. c \<noteq> CHR ''.'') (rev (Y @ ''/etc/passwd'')))))"
    by (rule toLowerCase_keeps_slash)
  then have "CHR ''/'' \<in> set (getFileExtension (Y @ ''/etc/passwd''))"
    using True by (simp add: getFileExtension_def)
  then show ?thesis using allowed_no_slash by blast
qed

lemma etc_passwd_invalid:
  "\<not> isValid (validateFilePath e fs (new_FileAccessControl e root) ''../../etc/passwd'')"
proof -
  obtain Y where "resolve (cwd e) ''../../etc/passwd'' = Y @ ''/etc/passwd''"
    using resolve_etc_passwd by blast
  then have "getFileExtension (resolve (cwd e) ''../../etc/passwd'')
             \<notin> set (allowedExtensions (new_FileAccessControl e root))"
    using extension_etc_passwd by simp
  then show ?thesis by (simp add: validateFilePath_def Let_def invalid_def)
qed

text \<open>A path that resolves outside the root is refused at the first check.\<close>

lemma outside_is_traversal:
  assumes "\<not> under (cwd e) root P"
  shows "validateFilePath e fs (new_FileAccessControl e root) P
           = \<lparr> isValid = False, v_reason = Some ''Directory traversal detected'', sanitizedPath = None \<rparr>"
  using relative_outside[of "cwd e" root P] assms
  by (simp add: under_def validateFilePath_def new_FileAccessControl_def invalid_def Let_def)

section \<open>Facts about the file system calls\<close>

lemma files_of_write: "files_of (fs(p \<mapsto> File c)) = (files_of fs)(p \<mapsto> c)"
  by (auto simp: files_of_def fun_eq_iff)

lemma files_of_mkdir: "fs p = None \<Longrightarrow> files_of (fs(p \<mapsto> Dir)) = files_of fs"
  by (auto simp: files_of_def fun_eq_iff)

lemma node_at_None: "node_at fs segs = None \<Longrightarrow> fs (path_of segs) = None"
  by (simp add: node_at_def split: if_splits)

lemma node_at_File: "node_at fs segs = Some (File b) \<Longrightarrow> fs (path_of segs) = Some (File b)"
  by (simp add: node_at_def split: if_splits)

text \<open>Creating directories changes no file, whether it succeeds or not.\<close>

lemma mkdir_chain_files: "files_of (snd (mkdir_chain e fs at cs)) = files_of fs"
proof (induction e fs at cs rule: mkdir_chain.induct)
  case (1 e fs at)
  show ?case by simp
next
  case (2 e fs at c cs)
  show ?case
  proof (cases "c = [] \<or> c = ''.''")
    case True
    then show ?thesis using 2(1) by simp
  next
    case False
    show ?thesis
    proof (cases "c = ''..''")
      case True
      then show ?thesis using False 2(2) by simp
    next
      case F2: False
      show ?thesis
      proof (cases "node_at fs (at @ [c])")
        case None
        show ?thesis
        proof (cases "fault e (path_of (at @ [c]))")
          case N2: None
          have "files_of (snd (mkdir_chain e (fs(path_of (at @ [c]) \<mapsto> Dir)) (at @ [c]) cs))
                = files_of (fs(path_of (at @ [c]) \<mapsto> Dir))"
            using 2(3)[OF False F2 None N2] .
          then show ?thesis using False F2 None N2 by (simp add: files_of_mkdir node_at_None)
        next
          case (Some a)
          then show ?thesis using False F2 None by simp
        qed
      next
        case (Some n)
        show ?thesis
        proof (cases n)
          case (File b)
          then show ?thesis using False F2 Some by simp
        next
          case Dir
          then show ?thesis using False F2 Some 2(4) by simp
        qed
      qed
    qed
  qed
qed

lemma mkdirSync_files: "files_of (snd (mkdirSync_recursive e fs p)) = files_of fs"
  by (simp add: mkdirSync_recursive_def mkdir_chain_files)

text \<open>A read that succeeds gives the text of a file that is there.\<close>

lemma readFileSync_Inr:
  assumes "readFileSync e fs p = Inr content"
  shows "\<exists>bytes. files_of fs (resolve (cwd e) p) = Some bytes \<and> content = utf8_text bytes"
proof -
  obtain segs where l: "locate e fs p = Inr segs"
    using assms by (cases "locate e fs p") (simp_all add: readFileSync_def)
  then obtain bytes where n: "node_at fs segs = Some (File bytes)"
    using assms by (auto simp: readFileSync_def split: option.splits node.splits)
  then have "content = utf8_text bytes"
    using assms l by (auto simp: readFileSync_def split: option.splits fault.splits)
  moreover have "files_of fs (resolve (cwd e) p) = Some bytes"
    using node_at_File[OF n] locate_resolve(1)[OF l] by (simp add: files_of_def)
  ultimately show ?thesis by blast
qed

text \<open>The three ways in which \<open>writeFileSync\<close> ends: the file holds the content; the
  write stopped short and the file holds the bytes written so far; or the call failed
  before the file was opened and nothing has changed.\<close>

lemma writeFileSync_cases:
  "writeFileSync e fs p content = (Inr (), fs((resolve (cwd e) p) \<mapsto> File content))
   \<or> (\<exists>k. fault e (resolve (cwd e) p) = Some (Short k)
          \<and> writeFileSync e fs p content
              = (Inl EIO, fs((resolve (cwd e) p) \<mapsto> File (take k content))))
   \<or> (\<exists>err. writeFileSync e fs p content = (Inl err, fs))"
proof (cases "locate e fs p")
  case (Inl err)
  then show ?thesis by (simp add: writeFileSync_def)
next
  case (Inr segs)
  have p: "path_of segs = resolve (cwd e) p" using Inr by (rule locate_resolve(1))
  show ?thesis
    using Inr
    by (auto simp: writeFileSync_def p split: option.splits node.splits fault.splits)
qed

section \<open>Facts about the scorer\<close>

lemma validateSyntax_range: "0 \<le> validateSyntax e fs f code \<and> validateSyntax e fs f code \<le> 20"
  by (simp add: validateSyntax_def validateTypeScript_def validateJavaScript_def validatePython_def Let_def
           split: sum.splits option.splits)

lemma runTests_range: "runTests e fs pp f = 15 \<or> runTests e fs pp f = 20"
  by (simp add: runTests_def split: option.splits)

text \<open>No file scores more than 84: 20 for the syntax, 20 for the tests and the four
  constants 15, 12, 8 and 9.\<close>

lemma calculateConfidence_le_84: "calculateConfidence e fs m fp \<le> 84"
  using validateSyntax_range runTests_range
  apply (simp add: calculateConfidence_def calculateProjectConfidence_def calculateTotalConfidence_def
      calculateConfidence_metrics_def checkPatternAlignment_def checkMemoryConsistency_def
        assessRisk_def assessPerformance_def split: option.splits)
  by (smt (verit))

text \<open>So the gate never allows what the scorer of the repository has scored.\<close>

lemma gate_denies_scored:
  "\<not> allowed (checkDeploymentPermission f (calculateConfidence e fs m fp))"
  using calculateConfidence_le_84[of e fs m fp] by (simp add: checkDeploymentPermission_def)

text \<open>The names that \<open>findTestFile\<close> tries are those of \<open>test_files\<close>.\<close>

lemma findTestFile_test_files:
  "findTestFile e fs pp f = find (\<lambda>pattern. existsSync e fs (join [pp, pattern])) (test_files f)"
  by (simp add: findTestFile_def test_files_def Let_def)

text \<open>The metrics of a file read nothing but the content that is given or, without
  one, the text of the file at the path, the verdicts of the parsers, and the
  existence of the test files.\<close>

lemma metrics_frame:
  assumes "readFileSync e fs f = readFileSync e' fs' f"
    and "ts_diagnostics e = ts_diagnostics e'"
    and "js_parses e = js_parses e'"
    and "python_parses e = python_parses e'"
    and "\<forall>p \<in> set (test_files f). existsSync e fs (join [pp, p]) = existsSync e' fs' (join [pp, p])"
  shows "calculateConfidence_metrics e fs pp f code = calculateConfidence_metrics e' fs' pp f code"
proof -
  have "validateSyntax e fs f code = validateSyntax e' fs' f code"
    unfolding validateSyntax_def validateTypeScript_def validateJavaScript_def validatePython_def
      assms(1) assms(2) assms(3) assms(4)
    by (rule refl)
  moreover have "find (\<lambda>pattern. existsSync e fs (join [pp, pattern])) (test_files f)
                 = find (\<lambda>pattern. existsSync e' fs' (join [pp, pattern])) (test_files f)"
    using assms(5) by (intro find_cong) simp_all
  then have "runTests e fs pp f = runTests e' fs' pp f"
    by (simp add: runTests_def findTestFile_test_files)
  ultimately show ?thesis by (simp add: calculateConfidence_metrics_def)
qed

text \<open>How \<open>deployToRealFiles\<close> ends. It resolves to \<open>true\<close> only when it was forced, and
  then the real file holds the text of the mirror file and no other file has changed.
  Otherwise it resolves to \<open>false\<close>, and either no file has changed, or the write of the
  real file stopped short and that file holds the bytes written so far.\<close>

lemma deploy_outcome:
  "(\<exists>bytes. fst (deployToRealFiles e fs m f force) = Inr True \<and> force
        \<and> files_of fs (resolve (cwd e) (join [sandboxPath m, f])) = Some bytes
        \<and> files_of (snd (deployToRealFiles e fs m f force))
            = (files_of fs)(resolve (cwd e) (join [projectPath m, f]) \<mapsto> utf8_text bytes))
   \<or> (fst (deployToRealFiles e fs m f force) = Inr False
        \<and> files_of (snd (deployToRealFiles e fs m f force)) = files_of fs)
   \<or> (\<exists>content k. fst (deployToRealFiles e fs m f force) = Inr False \<and> force
        \<and> readFileSync e fs (join [sandboxPath m, f]) = Inr content
        \<and> fault e (resolve (cwd e) (join [projectPath m, f])) = Some (Short k)
        \<and> files_of (snd (deployToRealFiles e fs m f force))
            = (files_of fs)(resolve (cwd e) (join [projectPath m, f]) \<mapsto> take k content))"
proof -
  let ?S = "join [sandboxPath m, f]" and ?R = "join [projectPath m, f]"
  let ?r = "deployToRealFiles e fs m f force"
  show ?thesis
  proof (cases "existsSync e fs ?S")
    case False
    then have "?r = (Inr False, fs)" by (simp add: deployToRealFiles_def deploy_attempt_def Let_def)
    then show ?thesis by simp
  next
    case ex: True
    show ?thesis
    proof (cases force)
      case False
      then have "?r = (Inr False, fs)"
        using ex gate_denies_scored[of f e fs m "Some f"]
        by (simp add: deployToRealFiles_def deploy_attempt_def Let_def)
      then show ?thesis by simp
    next
      case force: True
      show ?thesis
      proof (cases "readFileSync e fs ?S")
        case (Inl err)
        then have "?r = (Inr False, fs)"
          using ex force by (simp add: deployToRealFiles_def deploy_attempt_def Let_def)
        then show ?thesis by simp
      next
        case rd: (Inr content)
        obtain bytes where b: "files_of fs (resolve (cwd e) ?S) = Some bytes" "content = utf8_text bytes"
          using readFileSync_Inr[OF rd] by blast
        let ?D = "if \<not> existsSync e fs (dirname ?R)
                  then mkdirSync_recursive e fs (dirname ?R) else (Inr (), fs)"
        obtain d fs1 where D: "?D = (d, fs1)" by (cases ?D)
        have f1: "files_of fs1 = files_of fs"
          using D mkdirSync_files[of e fs "dirname ?R"] by (auto split: if_splits)
        show ?thesis
        proof (cases d)
          case (Inl err)
          then have "?r = (Inr False, fs1)"
            using ex force rd D by (simp add: deployToRealFiles_def deploy_attempt_def Let_def)
          then show ?thesis using f1 by simp
        next
          case (Inr u)
          have r: "?r = (case writeFileSync e fs1 ?R content of
                           (Inl err, fs2) \<Rightarrow> (Inr False, fs2)
                         | (Inr _, fs2) \<Rightarrow> (Inr True, fs2))"
            using ex force rd D Inr
            by (simp add: deployToRealFiles_def deploy_attempt_def Let_def split: prod.splits sum.splits)
          consider (ok) "writeFileSync e fs1 ?R content
                           = (Inr (), fs1((resolve (cwd e) ?R) \<mapsto> File content))"
            | (short) k where "fault e (resolve (cwd e) ?R) = Some (Short k)"
                "writeFileSync e fs1 ?R content
                   = (Inl EIO, fs1((resolve (cwd e) ?R) \<mapsto> File (take k content)))"
            | (failed) err where "writeFileSync e fs1 ?R content = (Inl err, fs1)"
            using writeFileSync_cases[of e fs1 ?R content] by blast
          then show ?thesis
          proof cases
            case ok
            then have "?r = (Inr True, fs1((resolve (cwd e) ?R) \<mapsto> File content))"
              using r by simp
            then show ?thesis using f1 b force by (simp add: files_of_write)
          next
            case short
            then have "?r = (Inr False, fs1((resolve (cwd e) ?R) \<mapsto> File (take k content)))"
              using r by simp
            then show ?thesis using f1 rd force short(1) by (simp add: files_of_write)
          next
            case failed
            then have "?r = (Inr False, fs1)" using r by simp
            then show ?thesis using f1 by simp
          qed
        qed
      qed
    qed
  qed
qed

section \<open>The example project, evaluated\<close>

lemma manager0_paths: "sandboxPath manager0 = ''/proj/.sentvibe/sandbox''" "projectPath manager0 = ''/proj''"
  by (simp_all add: manager0_def new_SandboxManager_def join_def normalize_def normalizeString_def isAbsolute_def)

lemma conf_a_txt: "calculateConfidence env0 fs0 manager0 (Some ''a.txt'') = 74"
  by code_simp

lemma a_txt_paths:
  "resolve (cwd env0) (join [projectPath manager0, ''a.txt'']) = ''/proj/a.txt''"
  "resolve (cwd env_short) (join [projectPath manager0, ''a.txt'']) = ''/proj/a.txt''"
  "resolve (cwd env_refused) (join [projectPath manager0, ''a.txt'']) = ''/proj/a.txt''"
  "resolve (cwd env0) (join [sandboxPath manager0, ''a.txt'']) = ''/proj/.sentvibe/sandbox/a.txt''"
  by code_simp+

lemma a_txt_read:
  "readFileSync env0 fs0 (join [sandboxPath manager0, ''a.txt'']) = Inr ''new''"
  "readFileSync env_short fs0 (join [sandboxPath manager0, ''a.txt'']) = Inr ''new''"
  "existsSync env0 fs0 (dirname (join [projectPath manager0, ''a.txt'']))"
  "fst (writeFileSync env0 fs0 (join [projectPath manager0, ''a.txt'']) ''new'') = Inr ()"
  by code_simp+

lemma a_txt_faults:
  "fault env_short ''/proj/a.txt'' = Some (Short 1)"
  "fault env_refused ''/proj/a.txt'' = Some Refused"
  by code_simp+

lemma a_txt_deployed:
  "fst (deployToRealFiles env0 fs0 manager0 ''a.txt'' True) = Inr True"
  "fst (deployToRealFiles env_refused fs0 manager0 ''a.txt'' True) = Inr False"
  "fst (deployToRealFiles env_short fs0 manager0 ''a.txt'' True) = Inr False"
  "snd (deployToRealFiles env_short fs0 manager0 ''a.txt'' True) ''/proj/a.txt'' = Some (File ''n'')"
  "fs0 ''/proj/a.txt'' = Some (File ''old'')"
  by code_simp+

lemma missing_ts_absent: "\<not> existsSync env0 fs0 (join [sandboxPath manager0, ''missing.ts''])"
  by code_simp

lemma id_rsa_policy:
  "isPathBlocked (new_FileAccessControl env0 ''/proj'') ''id_rsa.pem''"
  "getFileExtension ''/proj/id_rsa.pem'' \<notin> set (allowedExtensions (new_FileAccessControl env0 ''/proj''))"
proof -
  show "isPathBlocked (new_FileAccessControl env0 ''/proj'') ''id_rsa.pem''"
    by (simp add: isPathBlocked_def new_FileAccessControl_def startsWith_def line_terminator_def)
  have "getFileExtension ''/proj/id_rsa.pem'' = ''.pem''" by code_simp
  then show "getFileExtension ''/proj/id_rsa.pem'' \<notin> set (allowedExtensions (new_FileAccessControl env0 ''/proj''))"
    by (simp add: new_FileAccessControl_def)
qed

lemma id_rsa_deployed:
  "fst (deployToRealFiles env0 fs0 manager0 ''id_rsa.pem'' True) = Inr True"
  "fs0 ''/proj/id_rsa.pem'' = None"
  "snd (deployToRealFiles env0 fs0 manager0 ''id_rsa.pem'' True) ''/proj/id_rsa.pem'' = Some (File ''KEY'')"
  by code_simp+

lemma replacement_bytes:
  "char_of (239::nat) = CHR 0xEF" "char_of (191::nat) = CHR 0xBF" "char_of (189::nat) = CHR 0xBD"
  by code_simp+

lemma utf8_text_raw: "utf8_text [CHR 0xFF] = [CHR 0xEF, CHR 0xBF, CHR 0xBD]"
  by (simp add: utf8_text_def utf8_decode_def decode_bytes_def units_of_point_def utf8_encode_def
        utf8_of_point_def surrogate_def high_surrogate_def low_surrogate_def second_range_def trail_def
        replacement_bytes)

lemma raw_txt_paths:
  "resolve (cwd env0) (join [sandboxPath manager0, ''raw.txt'']) = ''/proj/.sentvibe/sandbox/raw.txt''"
  "resolve (cwd env0) (join [projectPath manager0, ''raw.txt'']) = ''/proj/raw.txt''"
  "locate env0 fs_raw (join [sandboxPath manager0, ''raw.txt'']) = Inr [''proj'', ''.sentvibe'', ''sandbox'', ''raw.txt'']"
  "node_at fs_raw [''proj'', ''.sentvibe'', ''sandbox'', ''raw.txt''] = Some (File [CHR 0xFF])"
  "fault env0 (path_of [''proj'', ''.sentvibe'', ''sandbox'', ''raw.txt'']) = None"
  "existsSync env0 fs_raw (dirname (join [projectPath manager0, ''raw.txt'']))"
  "fst (writeFileSync env0 fs_raw (join [projectPath manager0, ''raw.txt'']) [CHR 0xEF, CHR 0xBF, CHR 0xBD]) = Inr ()"
  by code_simp+

lemma raw_txt_read:
  "readFileSync env0 fs_raw (join [sandboxPath manager0, ''raw.txt'']) = Inr [CHR 0xEF, CHR 0xBF, CHR 0xBD]"
  by (simp add: readFileSync_def raw_txt_paths utf8_text_raw)

lemma id_rsa_scores:
  "fs0 ''/proj/.sentvibe/sandbox/id_rsa.pem'' = Some (File ''KEY'')"
  "snd (deployToRealFiles env0 fs0 manager0 ''id_rsa.pem'' True) ''/proj/.sentvibe/sandbox/id_rsa.pem''
     = Some (File ''KEY'')"
  "calculateConfidence env0 fs0 manager0 (Some ''id_rsa.pem'') = 59"
  "calculateConfidence env0 (snd (deployToRealFiles env0 fs0 manager0 ''id_rsa.pem'' True)) manager0
     (Some ''id_rsa.pem'') = 74"
  by code_simp+

lemma a_txt_below: "calculateConfidence env_below fs0 manager0 (Some ''a.txt'') = 59"
  by code_simp

lemma later_reads: "readFileSync env0 fs0 ''a.txt'' = readFileSync env_later fs_raw ''a.txt''"
  by code_simp

lemma later_tests:
  "\<forall>q \<in> set (test_files ''a.txt'').
      existsSync env0 fs0 (join [projectPath manager0, q])
        = existsSync env_later fs_raw (join [projectPath manager0, q])"
proof -
  have "list_all (\<lambda>q. existsSync env0 fs0 (join [projectPath manager0, q])
                       = existsSync env_later fs_raw (join [projectPath manager0, q]))
          (test_files ''a.txt'')"
    by code_simp
  then show ?thesis by (simp only: list_all_iff)
qed

lemma later_parsers:
  "ts_diagnostics env0 = ts_diagnostics env_later" "js_parses env0 = js_parses env_later"
  "python_parses env0 = python_parses env_later"
  by (simp_all add: env_later_def)

section \<open>Facts about the regular expression engine\<close>

text \<open>Every match ends at or after its start and inside the text, so the loop over
  all matches of a global expression ends with a failed \<open>exec\<close>, which puts \<open>lastIndex\<close>
  back to 0, before its fuel is used up.\<close>

lemma reach_refl: "reach x x"
  by (simp add: reach_def)

lemma reach_trans: "reach x y \<Longrightarrow> reach y z \<Longrightarrow> reach x z"
  by (auto simp: reach_def)

lemma rep_iter_reach:
  assumes m: "\<And>x y. y \<in> set (m x) \<Longrightarrow> reach x y"
  shows "y \<in> set (rep_iter fuel m mn mx g x) \<Longrightarrow> reach x y"
proof (induction fuel arbitrary: mn mx x)
  case 0
  then show ?case by simp
next
  case (Suc fuel)
  show ?case
  proof (cases "mx = Some 0")
    case True
    then show ?thesis using Suc.prems by (simp add: reach_refl)
  next
    case nz: False
    show ?thesis
    proof (cases "mn \<noteq> 0")
      case True
      then obtain z where "z \<in> set (m x)"
          and "y \<in> set (rep_iter fuel m (mn - 1) (map_option (\<lambda>k. k - 1) mx) g z)"
        using Suc.prems nz by auto
      then show ?thesis using m Suc.IH reach_trans by blast
    next
      case False
      then have "y = x \<or> (\<exists>z \<in> set (m x). y \<in> set (rep_iter fuel m 0 (map_option (\<lambda>k. k - 1) mx) g z))"
        using Suc.prems nz by (auto simp: Let_def split: if_splits)
      then show ?thesis using m Suc.IH reach_trans reach_refl by blast
    qed
  qed
qed

lemma rx_run_reach: "y \<in> set (rx_run ic r x) \<Longrightarrow> reach x y"
proof (induction ic r x arbitrary: y rule: rx_run.induct)
  case (1 ic negated members x)
  then show ?case
    by (cases x) (auto simp: reach_def pos_index_def pos_rest_def split: list.splits if_splits)
next
  case (2 ic x)
  then show ?case by (simp add: reach_refl)
next
  case (3 ic a b x)
  from 3(3) obtain z where z: "z \<in> set (rx_run ic a x)" and yz: "y \<in> set (rx_run ic b z)" by auto
  have "reach x z" using z by (rule 3(1))
  moreover have "reach z y" using z yz by (rule 3(2))
  ultimately show ?case by (rule reach_trans)
next
  case (4 ic a b x)
  from 4(3) have "y \<in> set (rx_run ic a x) \<or> y \<in> set (rx_run ic b x)" by simp
  then show ?case using 4(1) 4(2) by blast
next
  case (5 ic mn mx greedy r x)
  show ?case
  proof (rule rep_iter_reach)
    show "y \<in> set (rep_iter (mn + length (pos_rest x) + 1) (rx_run ic r) mn mx greedy x)"
      using 5(2) by simp
  next
    fix x' y' assume "y' \<in> set (rx_run ic r x')"
    then show "reach x' y'" by (rule 5(1))
  qed
next
  case (6 ic x)
  then show ?case by (auto simp: reach_refl split: if_splits)
next
  case (7 ic r x)
  then show ?case by (auto simp: reach_refl split: if_splits)
qed

lemma rx_scan_bounds:
  "rx_scan ic r p i rest = Some (b, e) \<Longrightarrow> i \<le> b \<and> b \<le> e \<and> e \<le> i + int (length rest)"
proof (induction rest arbitrary: p i)
  case Nil
  then obtain y ys where run: "rx_run ic r (p, i, []) = y # ys" and be: "b = i" "e = pos_index y"
    by (auto split: list.splits)
  have "reach (p, i, []) y" using rx_run_reach[of y ic r "(p, i, [])"] run by simp
  then show ?case using be by (simp add: reach_def pos_index_def pos_rest_def)
next
  case (Cons c cs)
  show ?case
  proof (cases "rx_run ic r (p, i, c # cs)")
    case Nil
    then have "rx_scan ic r (Some c) (i + 1) cs = Some (b, e)" using Cons.prems by simp
    then have "i + 1 \<le> b \<and> b \<le> e \<and> e \<le> i + 1 + int (length cs)" by (rule Cons.IH)
    then show ?thesis by simp
  next
    case (Cons y ys)
    then have "reach (p, i, c # cs) y" using rx_run_reach[of y ic r "(p, i, c # cs)"] by simp
    moreover have "b = i" "e = pos_index y" using Cons Cons.prems by simp_all
    ultimately show ?thesis by (simp add: reach_def pos_index_def pos_rest_def)
  qed
qed

lemma rx_search_bounds:
  "rx_search ic r s i = Some (b, e) \<Longrightarrow> i \<le> b \<and> b \<le> e \<and> e \<le> length s"
  by (auto simp: rx_search_def Let_def split: if_splits dest!: rx_scan_bounds)

lemma exec_all_rests:
  "global re \<Longrightarrow> lastIndex re \<le> length s + 1 \<Longrightarrow> length s + 2 \<le> fuel + lastIndex re
   \<Longrightarrow> snd (exec_all fuel re s) = re\<lparr> lastIndex := 0 \<rparr>"
proof (induction fuel arbitrary: re)
  case 0
  then show ?case by simp
next
  case (Suc fuel)
  show ?case
  proof (cases "rx_search (ignoreCase re) (pattern re) s (lastIndex re)")
    case None
    then show ?thesis using Suc.prems by (simp add: regexp_exec_def)
  next
    case (Some be)
    obtain b e where be: "be = (b, e)" by (cases be)
    have bnd: "lastIndex re \<le> b" "b \<le> e" "e \<le> length s"
      using rx_search_bounds[of "ignoreCase re" "pattern re" s "lastIndex re" b e] Some be by auto
    let ?re' = "if e = b then re\<lparr> lastIndex := Suc e \<rparr> else re\<lparr> lastIndex := e \<rparr>"
    have "snd (exec_all fuel ?re' s) = ?re'\<lparr> lastIndex := 0 \<rparr>"
      using Suc.prems bnd by (intro Suc.IH) auto
    then show ?thesis using Suc.prems Some be
      by (auto simp: regexp_exec_def split: prod.splits if_splits)
  qed
qed

lemma global_matches_rests: "global re \<Longrightarrow> snd (global_matches re s) = re\<lparr> lastIndex := 0 \<rparr>"
  using exec_all_rests[of "re\<lparr> lastIndex := 0 \<rparr>" s "length s + 2"]
  by (simp add: global_matches_def)

lemma String_match_rests: "global re \<Longrightarrow> snd (String_match s re) = re\<lparr> lastIndex := 0 \<rparr>"
  using global_matches_rests[of re s] by (cases "global_matches re s") (simp add: String_match_def)

lemma String_replace_rests: "global re \<Longrightarrow> snd (String_replace s re f) = re\<lparr> lastIndex := 0 \<rparr>"
  using global_matches_rests[of re s] by (cases "global_matches re s") (simp add: String_replace_def)

lemma regexp_exec_keeps: "global re \<Longrightarrow> \<exists>k. snd (regexp_exec re s) = re\<lparr> lastIndex := k \<rparr>"
  by (auto simp: regexp_exec_def Let_def split: option.splits)

lemma sensitive_round_rests:
  assumes "global re"
  shows "snd (sensitive_round content acc re) = re\<lparr> lastIndex := 0 \<rparr>"
proof (cases "String_match content re")
  case (Pair m re1)
  then have re1: "re1 = re\<lparr> lastIndex := 0 \<rparr>" using String_match_rests[OF assms, of content] by simp
  show ?thesis
  proof (cases m)
    case None
    then show ?thesis using Pair re1 by (simp add: sensitive_round_def)
  next
    case (Some ms)
    have "global re1" using re1 assms by simp
    then have "snd (String_replace (sanitizedContent acc) re1 redact) = re1\<lparr> lastIndex := 0 \<rparr>"
      by (rule String_replace_rests)
    then show ?thesis using Pair Some re1
      by (cases "String_replace (sanitizedContent acc) re1 redact") (simp add: sensitive_round_def)
  qed
qed

lemma malicious_round_rests:
  assumes "global re"
  shows "snd (malicious_round content acc re) = re\<lparr> lastIndex := 0 \<rparr>"
proof -
  obtain k where k: "snd (regexp_exec re content) = re\<lparr> lastIndex := k \<rparr>"
    using regexp_exec_keeps[OF assms] by blast
  show ?thesis
  proof (cases "fst (regexp_exec re content)")
    case None
    then have "snd (regexp_exec re content) = re\<lparr> lastIndex := 0 \<rparr>"
      using assms by (auto simp: regexp_exec_def Let_def split: option.splits)
    then show ?thesis using None
      by (cases "regexp_exec re content") (simp add: malicious_round_def regexp_test_def)
  next
    case (Some m)
    have "global (re\<lparr> lastIndex := k \<rparr>)" using assms by simp
    then have "snd (String_replace (sanitizedContent acc) (re\<lparr> lastIndex := k \<rparr>) flag_malicious)
               = re\<lparr> lastIndex := k \<rparr>\<lparr> lastIndex := 0 \<rparr>"
      by (rule String_replace_rests)
    then show ?thesis using Some k
      by (cases "regexp_exec re content";
          cases "String_replace (sanitizedContent acc) (re\<lparr> lastIndex := k \<rparr>) flag_malicious")
         (simp add: malicious_round_def regexp_test_def)
  qed
qed

lemma rounds_rested:
  assumes step: "\<And>acc re. global re \<Longrightarrow> snd (step acc re) = re\<lparr> lastIndex := 0 \<rparr>"
  shows "rested res \<Longrightarrow> snd (rounds step acc res) = res"
proof (induction res arbitrary: acc)
  case Nil
  then show ?case by simp
next
  case (Cons re res)
  then have g: "global re" and z: "lastIndex re = 0" and r: "rested res" by (simp_all add: rested_def)
  have "snd (step acc re) = re" using step[OF g, of acc] z by simp
  then show ?case using Cons.IH[OF r, of "fst (step acc re)"]
    by (cases "step acc re"; cases "rounds step (fst (step acc re)) res") simp
qed

lemma sanitizeContent_at_rest:
  assumes "at_rest cs"
  shows "snd (sanitizeContent cs content p) = cs"
proof -
  have a: "\<And>acc. snd (rounds (sensitive_round content) acc (SENSITIVE_PATTERNS cs)) = SENSITIVE_PATTERNS cs"
    using assms by (intro rounds_rested sensitive_round_rests) (simp_all add: at_rest_def)
  have b: "\<And>acc. snd (rounds (malicious_round content) acc (MALICIOUS_PATTERNS cs)) = MALICIOUS_PATTERNS cs"
    using assms by (intro rounds_rested malicious_round_rests) (simp_all add: at_rest_def)
  let ?start = "\<lparr> sanitizedContent = content, sensitiveDataFound = False,
                     maliciousPatterns = False, redactionCount = 0 \<rparr>"
  obtain acc1 sens where r1: "rounds (sensitive_round content) ?start (SENSITIVE_PATTERNS cs) = (acc1, sens)"
    by (cases "rounds (sensitive_round content) ?start (SENSITIVE_PATTERNS cs)")
  obtain acc2 mal where r2: "rounds (malicious_round content) acc1 (MALICIOUS_PATTERNS cs) = (acc2, mal)"
    by (cases "rounds (malicious_round content) acc1 (MALICIOUS_PATTERNS cs)")
  have "sens = SENSITIVE_PATTERNS cs" using a[of ?start] r1 by simp
  moreover have "mal = MALICIOUS_PATTERNS cs" using b[of acc1] r2 by simp
  ultimately show ?thesis using r1 r2 by (simp add: sanitizeContent_def Let_def)
qed

lemma loaded_at_rest: "at_rest ContentSanitizer_loaded"
  by (simp add: at_rest_def rested_def ContentSanitizer_loaded_def gi_def list_all_iff)

lemma session_at_rest: "at_rest cs \<Longrightarrow> session cs calls = cs"
  by (induction calls arbitrary: cs) (auto simp: sanitizeContent_at_rest)

section \<open>The example contents, sanitized\<close>

lemma sanitize_api_key_line:
  "sanitizeContent ContentSanitizer_loaded api_key_line p
   = (\<lparr> sanitizedContent = ''const [REDACTED_API_KEY];'', sensitiveDataFound = True,
        maliciousPatterns = False, redactionCount = 1 \<rparr>, ContentSanitizer_loaded)"
  by code_simp

lemma sanitize_eval_unlink:
  "maliciousPatterns (fst (sanitizeContent ContentSanitizer_loaded eval_unlink p))"
  by code_simp

section \<open>Facts about Base64\<close>

lemma of_char_lt_256: "(of_char c :: nat) < 256"
proof -
  have "(of_char c :: nat) mod 256 = of_char c" by simp
  then show ?thesis by (metis mod_less_divisor zero_less_numeral)
qed

lemma of_char_b64:
  "n < 64 \<Longrightarrow> (of_char (b64 n) :: nat)
     = (if n < 26 then 65 + n else if n < 52 then 71 + n else if n < 62 then n - 4
        else if n = 62 then 43 else 47)"
  by (simp add: b64_def)

lemma b64_props: "n < 64 \<Longrightarrow> unbase64 (b64 n) = Some n \<and> b64 n \<noteq> CHR ''=''"
proof -
  assume n: "n < 64"
  consider "n < 26" | "26 \<le> n" "n < 52" | "52 \<le> n" "n < 62" | "n = 62" | "n = 63"
    using n by linarith
  then have code: "unbase64_code (of_char (b64 n)) = Some n \<and> (of_char (b64 n) :: nat) \<noteq> 61"
  proof cases
    case 1
    then have "(of_char (b64 n) :: nat) = 65 + n" using n by (simp add: of_char_b64)
    then show ?thesis using 1 by (simp add: unbase64_code_def)
  next
    case 2
    then have "(of_char (b64 n) :: nat) = 71 + n" using n by (simp add: of_char_b64)
    then show ?thesis using 2 by (simp add: unbase64_code_def)
  next
    case 3
    then have "(of_char (b64 n) :: nat) = n - 4" using n by (simp add: of_char_b64)
    then show ?thesis using 3 by (auto simp: unbase64_code_def)
  next
    case 4
    then show ?thesis by (simp add: of_char_b64 unbase64_code_def)
  next
    case 5
    then show ?thesis by (simp add: of_char_b64 unbase64_code_def)
  qed
  then have "(of_char (b64 n) :: nat) \<noteq> of_char CHR ''=''" by simp
  then have "b64 n \<noteq> CHR ''=''" by auto
  then show ?thesis using code by (simp add: unbase64_def)
qed

lemma div_mod_pack:
  fixes a b n :: nat
  assumes "b < n"
  shows "(a * n + b) div n = a" and "(a * n + b) mod n = b"
  using assms by simp_all

lemma recombine:
  fixes x y z :: nat
  assumes "y < 256" "z < 256"
  shows "x div 4 * 4 + (x mod 4 * 16 + y div 16) div 16 = x"
    and "(x mod 4 * 16 + y div 16) mod 16 * 16 + (y mod 16 * 4 + z div 64) div 4 = y"
    and "(y mod 16 * 4 + z div 64) mod 4 * 64 + z mod 64 = z"
    and "x div 4 * 4 + x mod 4 * 16 div 16 = x"
    and "(x mod 4 * 16 + y div 16) mod 16 * 16 + y mod 16 * 4 div 4 = y"
proof -
  have q: "y div 16 < 16" and w: "z div 64 < 4" using assms by simp_all
  show "x div 4 * 4 + (x mod 4 * 16 + y div 16) div 16 = x"
    by (simp only: div_mod_pack(1)[OF q]) simp
  show "(x mod 4 * 16 + y div 16) mod 16 * 16 + (y mod 16 * 4 + z div 64) div 4 = y"
    by (simp only: div_mod_pack(2)[OF q] div_mod_pack(1)[OF w]) simp
  show "(y mod 16 * 4 + z div 64) mod 4 * 64 + z mod 64 = z"
    by (simp only: div_mod_pack(2)[OF w]) simp
  show "x div 4 * 4 + x mod 4 * 16 div 16 = x" by simp
  show "(x mod 4 * 16 + y div 16) mod 16 * 16 + y mod 16 * 4 div 4 = y"
    by (simp only: div_mod_pack(2)[OF q]) simp
qed

lemma sextet_bounds:
  fixes x y z :: nat
  assumes "x < 256" "y < 256" "z < 256"
  shows "x div 4 < 64" and "x mod 4 * 16 < 64" and "x mod 4 * 16 + y div 16 < 64"
    and "y mod 16 * 4 < 64" and "y mod 16 * 4 + z div 64 < 64" and "z mod 64 < 64"
proof -
  have a: "x mod 4 < 4" and b: "y div 16 < 16" and c: "y mod 16 < 16" and d: "z div 64 < 4"
    using assms by simp_all
  show "x div 4 < 64" using assms by simp
  show "x mod 4 * 16 < 64" using a by linarith
  show "x mod 4 * 16 + y div 16 < 64" using a b by linarith
  show "y mod 16 * 4 < 64" using c by linarith
  show "y mod 16 * 4 + z div 64 < 64" using c d by linarith
  show "z mod 64 < 64" by simp
qed

lemma sextets_Nil: "sextets [] = []"
  by (simp add: sextets_def List.map_filter_simps)

lemma sextets_pad: "sextets (CHR ''='' # rest) = []"
  by (simp add: sextets_def List.map_filter_simps)

lemma sextets_b64: "n < 64 \<Longrightarrow> sextets (b64 n # rest) = n # sextets rest"
  using b64_props[of n] by (simp add: sextets_def List.map_filter_simps)

lemma sextets_encode1: "sextets (encode1 a @ rest) = [of_char a div 4, (of_char a mod 4) * 16]"
  using sextet_bounds(1,2)[OF of_char_lt_256[of a] of_char_lt_256[of a] of_char_lt_256[of a]]
  by (simp add: encode1_def Let_def sextets_b64 sextets_pad)

lemma sextets_encode2:
  "sextets (encode2 a b @ rest)
     = [of_char a div 4, (of_char a mod 4) * 16 + of_char b div 16, (of_char b mod 16) * 4]"
  using sextet_bounds(1,3,4)[OF of_char_lt_256[of a] of_char_lt_256[of b] of_char_lt_256[of b]]
  by (simp add: encode2_def Let_def sextets_b64 sextets_pad)

lemma sextets_encode3:
  "sextets (encode3 a b c @ rest)
     = of_char a div 4 # ((of_char a mod 4) * 16 + of_char b div 16)
       # ((of_char b mod 16) * 4 + of_char c div 64) # (of_char c mod 64) # sextets rest"
  using sextet_bounds(1,3,5,6)[OF of_char_lt_256[of a] of_char_lt_256[of b] of_char_lt_256[of c]]
  by (simp add: encode3_def Let_def sextets_b64)

lemma decode_one:
  "decode_sextets [of_char a div 4, (of_char a mod 4) * 16] = [a]"
proof -
  have "decode_sextets [of_char a div 4, (of_char a mod 4) * 16]
        = [char_of ((of_char a :: nat) div 4 * 4 + of_char a mod 4 * 16 div 16)]"
    by (simp only: decode_sextets.simps)
  also have "\<dots> = [char_of (of_char a :: nat)]"
    by (simp only: recombine(4)[OF of_char_lt_256[of a] of_char_lt_256[of a]])
  finally show ?thesis by simp
qed

lemma decode_two:
  "decode_sextets [of_char a div 4, (of_char a mod 4) * 16 + of_char b div 16, (of_char b mod 16) * 4]
     = [a, b]"
proof -
  have y: "(of_char b :: nat) < 256" by (rule of_char_lt_256)
  have "decode_sextets [of_char a div 4, (of_char a mod 4) * 16 + of_char b div 16, (of_char b mod 16) * 4]
        = [char_of ((of_char a :: nat) div 4 * 4 + (of_char a mod 4 * 16 + of_char b div 16) div 16),
           char_of (((of_char a :: nat) mod 4 * 16 + of_char b div 16) mod 16 * 16 + of_char b mod 16 * 4 div 4)]"
    by (simp only: decode_sextets.simps)
  also have "\<dots> = [char_of (of_char a :: nat), char_of (of_char b :: nat)]"
    by (simp only: recombine(1,5)[OF y y])
  finally show ?thesis by simp
qed

lemma decode_three:
  "decode_sextets (of_char a div 4 # ((of_char a mod 4) * 16 + of_char b div 16)
       # ((of_char b mod 16) * 4 + of_char c div 64) # (of_char c mod 64) # rest)
     = a # b # c # decode_sextets rest"
proof -
  have y: "(of_char b :: nat) < 256" and z: "(of_char c :: nat) < 256" by (rule of_char_lt_256)+
  have "decode_sextets (of_char a div 4 # ((of_char a mod 4) * 16 + of_char b div 16)
       # ((of_char b mod 16) * 4 + of_char c div 64) # (of_char c mod 64) # rest)
        = [char_of ((of_char a :: nat) div 4 * 4 + (of_char a mod 4 * 16 + of_char b div 16) div 16),
           char_of (((of_char a :: nat) mod 4 * 16 + of_char b div 16) mod 16 * 16
                      + (of_char b mod 16 * 4 + of_char c div 64) div 4),
           char_of (((of_char b :: nat) mod 16 * 4 + of_char c div 64) mod 4 * 64 + of_char c mod 64)]
          @ decode_sextets rest"
    by (simp only: decode_sextets.simps)
  also have "\<dots> = [char_of (of_char a :: nat), char_of (of_char b :: nat), char_of (of_char c :: nat)]
                   @ decode_sextets rest"
    by (simp only: recombine(1,2,3)[OF y z])
  finally show ?thesis by simp
qed

lemma base64_roundtrip: "base64_decode (base64_encode x) = x"
proof (induction x rule: base64_encode.induct)
  case 1
  then show ?case by (simp add: base64_decode_def sextets_Nil)
next
  case (2 a)
  have "base64_decode (base64_encode [a]) = decode_sextets (sextets (encode1 a @ []))"
    by (simp add: base64_decode_def)
  then show ?case by (simp only: sextets_encode1 decode_one)
next
  case (3 a b)
  have "base64_decode (base64_encode [a, b]) = decode_sextets (sextets (encode2 a b @ []))"
    by (simp add: base64_decode_def)
  then show ?case by (simp only: sextets_encode2 decode_two)
next
  case (4 a b c rest)
  have "base64_decode (base64_encode (a # b # c # rest))
        = a # b # c # decode_sextets (sextets (base64_encode rest))"
    by (simp only: base64_decode_def base64_encode.simps sextets_encode3 decode_three)
  then show ?case using 4 by (simp add: base64_decode_def)
qed

lemma base64_encode_length: "length x \<le> length (base64_encode x)"
proof (induction x rule: base64_encode.induct)
  case (4 a b c rest)
  then show ?case by (simp add: encode3_def Let_def)
qed (simp_all add: encode1_def encode2_def Let_def)

section \<open>Facts about JSON\<close>

lemma unhex_hex_digit: "unhex (hex_digit n) = Some (n mod 16)"
proof (cases "n mod 16 < 10")
  case True
  then show ?thesis by (simp add: unhex_def hex_digit_def unhex_code_def)
next
  case False
  moreover have "n mod 16 < 16" by simp
  ultimately show ?thesis by (simp add: unhex_def hex_digit_def unhex_code_def)
qed

lemma char_from_code: "(of_char c :: nat) = of_char d \<Longrightarrow> c = d"
  by (simp only: of_char_eq_iff)

lemma parse_escaped_char:
  "parse_string_body (json_escape c @ t) = map_option (apfst ((#) c)) (parse_string_body t)"
proof -
  let ?n = "of_char c :: nat"
  consider (quote) "c = CHR 0x22" | (backslash) "c = CHR 0x5C"
    | (b) "?n = 8" | (t) "?n = 9" | (n) "?n = 10" | (f) "?n = 12" | (r) "?n = 13"
    | (ctl) "?n < 32" "?n \<noteq> 8" "?n \<noteq> 9" "?n \<noteq> 10" "?n \<noteq> 12" "?n \<noteq> 13"
    | (plain) "32 \<le> ?n" "c \<noteq> CHR 0x22" "c \<noteq> CHR 0x5C"
    by linarith
  then show ?thesis
  proof cases
    case quote
    then show ?thesis by (simp add: json_escape_def unescape_def)
  next
    case backslash
    then show ?thesis by (simp add: json_escape_def unescape_def)
  next
    case b
    then have "c = CHR 0x08" by (intro char_from_code) simp
    then show ?thesis by (simp add: json_escape_def unescape_def)
  next
    case t
    then have "c = CHR 0x09" by (intro char_from_code) simp
    then show ?thesis by (simp add: json_escape_def unescape_def)
  next
    case n
    then have "c = CHR 0x0A" by (intro char_from_code) simp
    then show ?thesis by (simp add: json_escape_def unescape_def)
  next
    case f
    then have "c = CHR 0x0C" by (intro char_from_code) simp
    then show ?thesis by (simp add: json_escape_def unescape_def)
  next
    case r
    then have "c = CHR 0x0D" by (intro char_from_code) simp
    then show ?thesis by (simp add: json_escape_def unescape_def)
  next
    case ctl
    have nq: "c \<noteq> CHR 0x22" "c \<noteq> CHR 0x5C" using ctl(1) by auto
    have esc: "json_escape c = [CHR 0x5C, CHR ''u'', CHR ''0'', CHR ''0'', hex_digit (?n div 16), hex_digit ?n]"
      using ctl nq by (simp add: json_escape_def Let_def)
    have z: "unhex CHR ''0'' = Some 0" by (simp add: unhex_def unhex_code_def)
    have d16: "?n div 16 mod 16 = ?n div 16" using ctl(1) by simp
    have val: "((0 * 16 + 0) * 16 + ?n div 16) * 16 + ?n mod 16 = ?n" by simp
    have u: "utf8_of_unit ?n = [c]" using ctl(1) by (simp add: utf8_of_unit_def)
    have ap: "((@) [c]) = ((#) c)" by (simp add: fun_eq_iff)
    show ?thesis
      by (simp add: esc z unhex_hex_digit d16 u ap)
  next
    case plain
    then show ?thesis by (simp add: json_escape_def Let_def)
  qed
qed

lemma parse_escaped_string:
  "parse_string_body (concat (map json_escape s) @ CHR 0x22 # rest) = Some (s, rest)"
  by (induction s) (simp_all add: parse_escaped_char)

lemma json_escape_nonempty: "1 \<le> length (json_escape c)"
  by (simp add: json_escape_def Let_def)

lemma escaped_length: "length s \<le> length (concat (map json_escape s))"
proof (induction s)
  case Nil
  then show ?case by simp
next
  case (Cons c s)
  then show ?case using json_escape_nonempty[of c] by simp
qed

lemma stringify_envelope:
  "JSON_stringify (envelope d t)
   = ''{'' @ json_quote ''encrypted'' @ '':true,'' @ json_quote ''data'' @ '':'' @ json_quote d
       @ '','' @ json_quote ''timestamp'' @ '':'' @ json_quote t @ ''}''"
  by (simp add: envelope_def)

lemma envelope_length: "4 \<le> length (JSON_stringify (envelope d t))"
  unfolding stringify_envelope by (simp add: json_quote_def)


lemma skip_ws_nonws: "\<not> json_ws c \<Longrightarrow> skip_ws (c # r) = c # r"
  by (simp add: skip_ws_def)

lemma nonws: "\<not> json_ws CHR ''{''" "\<not> json_ws CHR 0x22" "\<not> json_ws CHR '':''" "\<not> json_ws CHR '',''"
  "\<not> json_ws CHR ''}''" "\<not> json_ws CHR ''t''"
  by (simp_all add: json_ws_def)

lemma parse_true: "parse_value (Suc n) (''true'' @ r) = Some (JBool True, r)"
  by (simp add: skip_ws_nonws nonws startsWith_def)

lemma parse_quoted_value:
  "parse_value (Suc n) (json_quote s @ r) = Some (JString s, r)"
  by (simp add: json_quote_def skip_ws_nonws nonws parse_escaped_string)

lemma parse_key:
  "parse_string_body (tl (json_quote s) @ r) = Some (s, r)"
  by (simp add: json_quote_def parse_escaped_string)


lemma json_quote_head: "json_quote s @ r = CHR 0x22 # (tl (json_quote s) @ r)"
  by (simp add: json_quote_def)

lemma parse_member_more:
  assumes v: "parse_value n vtext = Some (v, CHR '','' # r)"
  shows "parse_members (Suc n) (json_quote k @ CHR '':'' # vtext) acc = parse_members n r (acc @ [(k, v)])"
  by (simp add: json_quote_head[of k] skip_ws_nonws nonws parse_key v del: parse_value.simps)

lemma parse_member_last:
  assumes v: "parse_value n vtext = Some (v, CHR ''}'' # r)"
  shows "parse_members (Suc n) (json_quote k @ CHR '':'' # vtext) acc = Some (JObject (acc @ [(k, v)]), r)"
  by (simp add: json_quote_head[of k] skip_ws_nonws nonws parse_key v del: parse_value.simps)

lemma parse_object_open:
  "parse_value (Suc n) (CHR ''{'' # json_quote k @ r) = parse_members n (json_quote k @ r) []"
  by (simp add: json_quote_head[of k] skip_ws_nonws nonws)

lemma parse_envelope:
  "parse_value (Suc (Suc (Suc (Suc (Suc k))))) (JSON_stringify (envelope d t)) = Some (envelope d t, [])"
proof -
  let ?m3 = "json_quote ''timestamp'' @ CHR '':'' # (json_quote t @ ''}'')"
  let ?m2 = "json_quote ''data'' @ CHR '':'' # (json_quote d @ CHR '','' # ?m3)"
  let ?m1 = "json_quote ''encrypted'' @ CHR '':'' # (''true'' @ CHR '','' # ?m2)"
  have shape: "JSON_stringify (envelope d t) = CHR ''{'' # ?m1"
    by (simp add: stringify_envelope)
  have p3: "parse_members (Suc (Suc k)) ?m3 acc = Some (JObject (acc @ [(''timestamp'', JString t)]), [])" for acc
    by (rule parse_member_last) (rule parse_quoted_value)
  have p2: "parse_members (Suc (Suc (Suc k))) ?m2 acc
            = Some (JObject (acc @ [(''data'', JString d), (''timestamp'', JString t)]), [])" for acc
    using parse_member_more[of "Suc (Suc k)" "json_quote d @ CHR '','' # ?m3" "JString d" ?m3 "''data''" acc]
    by (simp only: parse_quoted_value p3) simp
  have p1: "parse_members (Suc (Suc (Suc (Suc k)))) ?m1 []
            = Some (JObject [(''encrypted'', JBool True), (''data'', JString d), (''timestamp'', JString t)], [])"
    using parse_member_more[of "Suc (Suc (Suc k))" "''true'' @ CHR '','' # ?m2" "JBool True" ?m2 "''encrypted''" "[]"]
    by (simp only: parse_true p2) simp
  have "parse_value (Suc (Suc (Suc (Suc (Suc k))))) (CHR ''{'' # ?m1)
        = parse_members (Suc (Suc (Suc (Suc k)))) ?m1 []"
    by (rule parse_object_open)
  then have "parse_value (Suc (Suc (Suc (Suc (Suc k))))) (CHR ''{'' # ?m1) = Some (envelope d t, [])"
    by (simp only: p1 envelope_def)
  then show ?thesis by (simp only: shape)
qed


lemma JSON_roundtrip: "JSON_parse (JSON_stringify (envelope d t)) = Some (envelope d t)"
proof -
  have "5 \<le> length (JSON_stringify (envelope d t)) + 1" using envelope_length[of d t] by simp
  then obtain k where "length (JSON_stringify (envelope d t)) + 1 = 5 + k"
    using le_Suc_ex by blast
  then have k: "length (JSON_stringify (envelope d t)) + 1 = Suc (Suc (Suc (Suc (Suc k))))"
    by simp
  have "parse_value (length (JSON_stringify (envelope d t)) + 1) (JSON_stringify (envelope d t))
             = Some (envelope d t, [])"
    unfolding k by (rule parse_envelope)
  then show ?thesis by (simp add: JSON_parse_def skip_ws_def)
qed

lemma envelope_longer: "length d + 4 \<le> length (JSON_stringify (envelope d t))"
  unfolding stringify_envelope using escaped_length[of d] by (simp add: json_quote_def)

section \<open>Facts about the encryption\<close>

text \<open>The text of base64 is plain ASCII: JSON writes it as it is, and its code units
  are its bytes.\<close>

lemma b64_plain: "n < 64 \<Longrightarrow> plain_ascii (b64 n)"
proof -
  assume n: "n < 64"
  have c: "32 < (of_char (b64 n) :: nat) \<and> (of_char (b64 n) :: nat) < 128
           \<and> (of_char (b64 n) :: nat) \<noteq> 34 \<and> (of_char (b64 n) :: nat) \<noteq> 92"
    using n by (auto simp add: of_char_b64)
  then have "(of_char (b64 n) :: nat) \<noteq> of_char (CHR 0x22)"
    and "(of_char (b64 n) :: nat) \<noteq> of_char (CHR 0x5C)" by simp_all
  then have "b64 n \<noteq> CHR 0x22" and "b64 n \<noteq> CHR 0x5C" by auto
  then show ?thesis using c by (simp add: plain_ascii_def)
qed

lemma pad_plain: "plain_ascii CHR ''=''"
  by (simp add: plain_ascii_def)

lemma base64_plain: "list_all plain_ascii (base64_encode x)"
proof (induction x rule: base64_encode.induct)
  case 1
  show ?case by simp
next
  case (2 a)
  show ?case
    using sextet_bounds(1,2)[OF of_char_lt_256[of a] of_char_lt_256[of a] of_char_lt_256[of a]]
    by (simp add: encode1_def Let_def b64_plain pad_plain)
next
  case (3 a b)
  show ?case
    using sextet_bounds(1,3,4)[OF of_char_lt_256[of a] of_char_lt_256[of b] of_char_lt_256[of b]]
    by (simp add: encode2_def Let_def b64_plain pad_plain)
next
  case (4 a b c rest)
  show ?case
    using 4 sextet_bounds(1,3,5,6)[OF of_char_lt_256[of a] of_char_lt_256[of b] of_char_lt_256[of c]]
    by (simp add: encode3_def Let_def b64_plain)
qed

lemma escape_plain: "list_all plain_ascii s \<Longrightarrow> concat (map json_escape s) = s"
  by (induction s) (auto simp: plain_ascii_def json_escape_def Let_def)

lemma code_units_plain: "list_all plain_ascii s \<Longrightarrow> code_units s = map of_char s"
  by (induction s) (auto simp: plain_ascii_def code_units_def units_of_point_def)

lemma low_bytes_plain: "list_all plain_ascii s \<Longrightarrow> low_bytes s = s"
  by (simp add: low_bytes_def code_units_plain map_idI)

text \<open>The length of the stored text.\<close>

lemma base64_length: "length (base64_encode y) = 4 * ((length y + 2) div 3)"
proof (induction y rule: base64_encode.induct)
  case (4 a b c rest)
  have "(length (a # b # c # rest) + 2) div 3 = (length rest + 2) div 3 + 1" by simp
  then show ?case using 4 by (simp add: encode3_def Let_def)
qed (simp_all add: encode1_def encode2_def Let_def)

lemma utf8_of_point_le: "length (utf8_of_point n) \<le> 4" "n < 0x10000 \<Longrightarrow> length (utf8_of_point n) \<le> 3"
  by (simp_all add: utf8_of_point_def)

lemma code_points_bytes_le:
  "list_all (\<lambda>u. u < 0x10000) us \<Longrightarrow> length (concat (map utf8_of_point (code_points us))) \<le> 3 * length us"
proof (induction us rule: code_points.induct)
  case 1
  show ?case by simp
next
  case (2 u)
  then have "(if surrogate u then 0xFFFD else u) < 0x10000" by simp
  then show ?case using utf8_of_point_le(2)[of "if surrogate u then 0xFFFD else u"] by simp
next
  case (3 u v r)
  show ?case
  proof (cases "high_surrogate u \<and> low_surrogate v")
    case True
    show ?thesis
      unfolding code_points_pair(1)[OF True]
      using 3(1)[OF True] 3(3) utf8_of_point_le(1)[of "0x10000 + (u - 0xD800) * 1024 + (v - 0xDC00)"]
      by simp
  next
    case False
    have "(if surrogate u then 0xFFFD else u) < 0x10000" using 3(3) by simp
    then have "length (utf8_of_point (if surrogate u then 0xFFFD else u)) \<le> 3"
      by (rule utf8_of_point_le(2))
    then show ?thesis
      unfolding code_points_single(1)[OF False]
      using 3(2)[OF False] 3(3) by simp
  qed
qed

lemma utf8_encode_le: "length (utf8_encode x) \<le> 3 * length x"
  using code_points_bytes_le[OF units_bounded[of x]] by (simp add: utf8_encode_def)

lemma json_escape_le: "length (concat (map json_escape s)) \<le> 6 * length s"
proof (induction s)
  case Nil
  show ?case by simp
next
  case (Cons c s)
  have "length (json_escape c) \<le> 6" by (simp add: json_escape_def Let_def)
  then show ?case using Cons by simp
qed

lemma stored_text_length:
  "length (stored_text rt x)
   = 43 + length (base64_encode (utf8_encode x))
       + length (concat (map json_escape (toISOString_now rt)))"
proof -
  let ?d = "base64_encode (utf8_encode x)" and ?t = "toISOString_now rt"
  have k: "length (json_quote ''encrypted'') = 11" "length (json_quote ''data'') = 6"
    "length (json_quote ''timestamp'') = 11"
    by (simp_all add: json_quote_def json_escape_def Let_def)
  have d: "length (json_quote ?d) = 2 + length ?d"
    by (simp add: json_quote_def escape_plain[OF base64_plain])
  have t: "length (json_quote ?t) = 2 + length (concat (map json_escape ?t))"
    by (simp add: json_quote_def)
  show ?thesis
    unfolding stored_text_def stringify_envelope by (simp add: k d t)
qed

lemma stored_text_le:
  "length (stored_text rt x) \<le> 4 * length x + 6 * length (toISOString_now rt) + 43"
proof -
  have "(length (utf8_encode x) + 2) div 3 \<le> length x"
    using utf8_encode_le[of x] by simp
  then have "length (base64_encode (utf8_encode x)) \<le> 4 * length x"
    by (simp add: base64_length)
  then show ?thesis
    using json_escape_le[of "toISOString_now rt"] by (simp add: stored_text_length)
qed

text \<open>What the two functions do with a key, and without one.\<close>

lemma property_data_envelope: "property_data (envelope d t) = Some (JString d)"
  by (simp add: property_data_def envelope_def)

lemma decrypt_stored:
  assumes "encryptionKey de = Some k"
  shows "decryptData rt de (stored_text rt' x) = Inr (utf8_decode (utf8_encode x))"
  using assms
  by (simp add: decryptData_def stored_text_def JSON_roundtrip property_data_envelope
        low_bytes_plain[OF base64_plain] base64_roundtrip)

lemma stored_text_differs: "stored_text rt x \<noteq> utf8_encode x"
proof -
  have "length (utf8_encode x) < length (stored_text rt x)"
    using envelope_longer[of "base64_encode (utf8_encode x)" "toISOString_now rt"]
      base64_encode_length[of "utf8_encode x"] by (simp add: stored_text_def)
  then show ?thesis by auto
qed

lemma encrypt_within:
  assumes "encryptionKey de = Some k" "within_ceiling rt x"
  shows "encryptData rt de x = Inr (stored_text rt x)"
proof -
  have "length (base64_encode (utf8_encode x)) \<le> length (stored_text rt x)"
    using envelope_longer[of "base64_encode (utf8_encode x)" "toISOString_now rt"]
    by (simp add: stored_text_def)
  then show ?thesis
    using assms by (simp add: encryptData_def within_ceiling_def stored_text_def envelope_def Let_def)
qed

lemma encrypt_beyond:
  assumes "encryptionKey de = Some k" "\<not> within_ceiling rt x"
  shows "encryptData rt de x = Inl FailedToEncrypt"
  using assms by (simp add: encryptData_def within_ceiling_def stored_text_def envelope_def Let_def)

lemma without_key:
  assumes "encryptionKey de = None"
  shows "encryptData rt de x = Inl NotInitialized" and "decryptData rt de ct = Inl NotInitialized"
  using assms by (simp_all add: encryptData_def decryptData_def)

text \<open>The stored text has more code units than the string it stores.\<close>

lemma code_units_ascii:
  "list_all (\<lambda>c. (of_char c :: nat) < 128) p \<Longrightarrow> code_units (p @ r) = map of_char p @ code_units r"
  by (induction p) (auto simp: code_units_def units_of_point_def)

lemma plain_is_ascii: "list_all plain_ascii s \<Longrightarrow> list_all (\<lambda>c. (of_char c :: nat) < 128) s"
  by (induction s) (simp_all add: plain_ascii_def)

lemma stored_text_units: "length x < length (code_units (stored_text rt x))"
proof -
  let ?d = "base64_encode (utf8_encode x)"
  let ?p = "''{'' @ json_quote ''encrypted'' @ '':true,'' @ json_quote ''data'' @ '':'' @ [CHR 0x22]"
  define r where "r = [CHR 0x22] @ '','' @ json_quote ''timestamp'' @ '':''
                        @ json_quote (toISOString_now rt) @ ''}''"
  have shape: "stored_text rt x = (?p @ ?d) @ r"
    unfolding stored_text_def stringify_envelope r_def
    by (simp add: json_quote_def[of ?d] escape_plain[OF base64_plain])
  have "list_all (\<lambda>c. (of_char c :: nat) < 128) ?p"
    by (simp add: json_quote_def json_escape_def Let_def)
  then have "list_all (\<lambda>c. (of_char c :: nat) < 128) (?p @ ?d)"
    using plain_is_ascii[OF base64_plain[of "utf8_encode x"]] by simp
  then have "code_units (stored_text rt x) = map of_char (?p @ ?d) @ code_units r"
    unfolding shape by (rule code_units_ascii)
  then have "length ?d \<le> length (code_units (stored_text rt x))" by simp
  moreover have "length x \<le> length (utf8_encode x)" by (rule utf8_encode_length)
  moreover have "length (utf8_encode x) < length ?d \<or> x = []"
  proof (cases "x = []")
    case False
    then have "0 < length (utf8_encode x)" using utf8_encode_length[of x] by (cases x) auto
    then have "length (utf8_encode x) < 4 * ((length (utf8_encode x) + 2) div 3)" by linarith
    then show ?thesis by (simp add: base64_length)
  qed simp
  moreover have "0 < length (map of_char (?p @ ?d) :: nat list)" by simp
  ultimately show ?thesis
    using \<open>code_units (stored_text rt x) = map of_char (?p @ ?d) @ code_units r\<close>
    by (cases "x = []") auto
qed

lemma lone_surrogate_text: "utf8_decode (utf8_encode [0xD800]) = [0xFFFD]"
  by (simp add: utf8_encode_def utf8_decode_def decode_bytes_def utf8_of_point_def surrogate_def
        trail_def second_range_def units_of_point_def)

section \<open>The gate does not look at security findings\<close>




section \<open>The gate has three tiers\<close>

text \<open>
  C2 (as stated, refuted). The claim asks for four tiers with Blocked on [0,49] distinct
  from SandboxOnly on [50,69]. The gate gives a score of 30 and a score of 60 the same
  action, the same suggestions and the same permission, and the action is
  \<open>continue-sandbox-testing\<close>, not \<open>blocked\<close>.
\<close>

theorem gate_low_tiers_not_distinct:
  "action (checkDeploymentPermission ''a.ts'' 30) = ContinueSandboxTesting
   \<and> action (checkDeploymentPermission ''a.ts'' 30) \<noteq> Blocked
   \<and> action (checkDeploymentPermission ''a.ts'' 60) = action (checkDeploymentPermission ''a.ts'' 30)
   \<and> suggestions (checkDeploymentPermission ''a.ts'' 60) = suggestions (checkDeploymentPermission ''a.ts'' 30)
   \<and> allowed (checkDeploymentPermission ''a.ts'' 60) = allowed (checkDeploymentPermission ''a.ts'' 30)"
  by (simp add: checkDeploymentPermission_def)

text \<open>
  C2 (amended). The gate partitions the scores into three ordered, exhaustive tiers:
  every score below 70 is denied with action \<open>continue-sandbox-testing\<close> and the four
  improvement suggestions, every score from 70 to 94 is denied with action
  \<open>request-review\<close> and a review package, and every score of 95 or more is allowed with
  action \<open>auto-deploy\<close>. No score yields the action \<open>blocked\<close>.
\<close>

theorem gate_three_tiers:
  "(c < 70 \<longrightarrow> action (checkDeploymentPermission f c) = ContinueSandboxTesting
               \<and> \<not> allowed (checkDeploymentPermission f c)
               \<and> suggestions (checkDeploymentPermission f c)
                    = Some [''Add more comprehensive tests'', ''Improve code quality'',
                            ''Follow established patterns'', ''Add error handling''])
   \<and> (70 \<le> c \<and> c < 95 \<longrightarrow> action (checkDeploymentPermission f c) = RequestReview
               \<and> \<not> allowed (checkDeploymentPermission f c)
               \<and> map_option rd_confidence (reviewData (checkDeploymentPermission f c)) = Some c)
   \<and> (95 \<le> c \<longrightarrow> action (checkDeploymentPermission f c) = AutoDeploy
               \<and> allowed (checkDeploymentPermission f c))
   \<and> action (checkDeploymentPermission f c) \<noteq> Blocked"
  by (simp add: checkDeploymentPermission_def)

theorem gate_three_tiers_witness:
  "(49::int) < 70 \<and> action (checkDeploymentPermission ''a.ts'' 49) = ContinueSandboxTesting
   \<and> (70::int) \<le> 80 \<and> (80::int) < 95 \<and> action (checkDeploymentPermission ''a.ts'' 80) = RequestReview
   \<and> (95::int) \<le> 96 \<and> action (checkDeploymentPermission ''a.ts'' 96) = AutoDeploy"
  using gate_three_tiers [of 49 "''a.ts''"] gate_three_tiers [of 80 "''a.ts''"]
        gate_three_tiers [of 96 "''a.ts''"]
  by simp

section \<open>The proxy checks no path\<close>

text \<open>
  C3 (the code departs from the claim and from its own comments). The proxy is
  documented as the sandbox isolation, and \<open>mapToSandbox\<close> as making the path relative
  and mapping it into the sandbox; the claim has \<open>writeFile\<close> reject a path that
  resolves outside the project root and write nothing outside the mirror. For the
  project \<open>/proj\<close> with mirror \<open>/proj/.sentvibe/sandbox\<close>, the path \<open>../../evil.ts\<close>
  resolves outside the project root, yet \<open>writeFile\<close> succeeds and creates
  \<open>/proj/evil.ts\<close>: a file outside the mirror, in the real project tree.
\<close>

theorem writeFile_escapes_mirror:
  "fst (writeFile env0 fs0 proxy0 ''../../evil.ts'' ''x'') = Inr ()
   \<and> fs0 ''/proj/evil.ts'' = None
   \<and> snd (snd (writeFile env0 fs0 proxy0 ''../../evil.ts'' ''x'')) ''/proj/evil.ts'' = Some (File ''x'')
   \<and> \<not> under (cwd env0) (sandboxRoot proxy0) ''/proj/evil.ts''
   \<and> under (cwd env0) (projectRoot proxy0) ''/proj/evil.ts''
   \<and> \<not> under (cwd env0) (projectRoot proxy0) ''../../evil.ts''"
  by code_simp

section \<open>What the sanitizer, the scorer and the gate depend on\<close>




section \<open>Forced deployment consults no access policy\<close>




section \<open>The access control resolves paths against the working directory\<close>




section \<open>The metrics of the scorer are bounded\<close>

text \<open>
  C7. Every \<open>ConfidenceMetrics\<close> value that \<open>ConfidenceCalculator.calculateConfidence\<close>
  produces has each sub-score within its declared range, and its total (the plain sum
  that \<open>calculateTotalConfidence\<close> computes) equals the sum of the six sub-scores
  clamped to [0,100]; hence the total lies between 0 and 100. The same holds for the
  placeholder metrics and the empty metrics of the manager.
\<close>

theorem scorer_metrics_bounded:
  "within_ranges (calculateConfidence_metrics e fs pp f code)
   \<and> calculateTotalConfidence (calculateConfidence_metrics e fs pp f code)
       = clamp 0 100 (sum_of_subscores (calculateConfidence_metrics e fs pp f code))
   \<and> 0 \<le> calculateTotalConfidence (calculateConfidence_metrics e fs pp f code)
   \<and> calculateTotalConfidence (calculateConfidence_metrics e fs pp f code) \<le> 100
   \<and> within_ranges calculateConfidenceMetrics
   \<and> calculateTotalConfidence calculateConfidenceMetrics
       = clamp 0 100 (sum_of_subscores calculateConfidenceMetrics)
   \<and> within_ranges getEmptyMetrics
   \<and> calculateTotalConfidence getEmptyMetrics = clamp 0 100 (sum_of_subscores getEmptyMetrics)"
  using validateSyntax_range[of e fs f code] runTests_range[of e fs pp f]
  by (auto simp: within_ranges_def calculateConfidence_metrics_def calculateTotalConfidence_def
        clamp_def sum_of_subscores_def checkPatternAlignment_def checkMemoryConsistency_def
        assessRisk_def assessPerformance_def calculateConfidenceMetrics_def getEmptyMetrics_def)

section \<open>Encryption and decryption of stored data\<close>

text \<open>
  C8 (as stated, refuted). The claim has \<open>decryptData\<close> return \<open>x\<close> from the text that
  \<open>encryptData\<close> stored for \<open>x\<close>, for every string \<open>x\<close> within the size ceiling. A
  surrogate without its partner is written as the bytes of U+FFFD, and that is what
  comes back: the string of the one code unit \<open>0xD800\<close>, which is within the ceiling,
  is stored, and read as the string of the one code unit \<open>0xFFFD\<close>.
\<close>

theorem encrypt_decrypt_lone_surrogate:
  "\<forall>from_object.
     within_ceiling (runtime0 from_object) [0xD800]
     \<and> (\<exists>ct. encryptData (runtime0 from_object) database0 [0xD800] = Inr ct
            \<and> decryptData (runtime0 from_object) database0 ct = Inr [0xFFFD]
            \<and> decryptData (runtime0 from_object) database0 ct \<noteq> Inr [0xD800])"
proof
  fix from_object
  let ?rt = "runtime0 from_object"
  have k: "encryptionKey database0 = Some ''0123456789abcdef0123456789abcdef''"
    by (simp add: database0_def)
  have w: "within_ceiling ?rt [0xD800]"
    using stored_text_le[of ?rt "[0xD800]"] by (simp add: within_ceiling_def runtime0_def)
  show "within_ceiling ?rt [0xD800]
     \<and> (\<exists>ct. encryptData ?rt database0 [0xD800] = Inr ct
            \<and> decryptData ?rt database0 ct = Inr [0xFFFD]
            \<and> decryptData ?rt database0 ct \<noteq> Inr [0xD800])"
    using w encrypt_within[OF k w] decrypt_stored[OF k, of ?rt ?rt "[0xD800]"]
    by (simp add: lone_surrogate_text)
qed

text \<open>
  C8 (amended). A string \<open>x\<close> is within the size ceiling when the text that
  \<open>encryptData\<close> writes for it is not longer than a string can be; it is when
  \<open>4 * |x| + 6 * |time stamp| + 43\<close> is not. With the key initialised, for every string
  \<open>x\<close> within the size ceiling \<open>encryptData(x)\<close> returns a text, \<open>decryptData\<close> of that
  text returns \<open>x\<close> with every surrogate that has no partner replaced by U+FFFD, which
  is \<open>x\<close> itself when \<open>x\<close> is well formed, and the text is not \<open>x\<close>, whether \<open>x\<close> is
  empty or not: it differs from \<open>x\<close> in its bytes and in its code units. For a string
  beyond the ceiling \<open>encryptData\<close> throws \<open>Failed to encrypt data\<close>. Without the key
  both functions throw \<open>Encryption not initialized\<close>.
\<close>

theorem encrypt_decrypt_within_ceiling:
  "(encryptionKey de = None
      \<longrightarrow> encryptData rt de x = Inl NotInitialized \<and> decryptData rt de text = Inl NotInitialized)
   \<and> (encryptionKey de \<noteq> None \<and> within_ceiling rt x
      \<longrightarrow> (\<exists>ct. encryptData rt de x = Inr ct
                \<and> ct \<noteq> utf8_encode x \<and> code_units ct \<noteq> map unat x
                \<and> decryptData rt de ct = Inr (utf8_decode (utf8_encode x))
                \<and> (well_formed x \<longrightarrow> decryptData rt de ct = Inr x)))
   \<and> (encryptionKey de \<noteq> None \<and> \<not> within_ceiling rt x
      \<longrightarrow> encryptData rt de x = Inl FailedToEncrypt)
   \<and> (4 * length x + 6 * length (toISOString_now rt) + 43 \<le> MAX_STRING_LENGTH rt
      \<longrightarrow> within_ceiling rt x)"
proof (intro conjI impI)
  assume "encryptionKey de = None"
  then show "encryptData rt de x = Inl NotInitialized" "decryptData rt de text = Inl NotInitialized"
    by (rule without_key)+
next
  assume a: "encryptionKey de \<noteq> None \<and> within_ceiling rt x"
  then obtain k where k: "encryptionKey de = Some k" by auto
  have e: "encryptData rt de x = Inr (stored_text rt x)"
    using k a by (simp add: encrypt_within)
  have d: "decryptData rt de (stored_text rt x) = Inr (utf8_decode (utf8_encode x))"
    using k by (rule decrypt_stored)
  have u: "code_units (stored_text rt x) \<noteq> map unat x"
    using stored_text_units[of x rt] by auto
  show "\<exists>ct. encryptData rt de x = Inr ct
                \<and> ct \<noteq> utf8_encode x \<and> code_units ct \<noteq> map unat x
                \<and> decryptData rt de ct = Inr (utf8_decode (utf8_encode x))
                \<and> (well_formed x \<longrightarrow> decryptData rt de ct = Inr x)"
    using e d u stored_text_differs[of rt x] by (auto simp: utf8_roundtrip)
next
  assume a: "encryptionKey de \<noteq> None \<and> \<not> within_ceiling rt x"
  then obtain k where k: "encryptionKey de = Some k" by auto
  show "encryptData rt de x = Inl FailedToEncrypt"
    using k a by (simp add: encrypt_beyond)
next
  assume "4 * length x + 6 * length (toISOString_now rt) + 43 \<le> MAX_STRING_LENGTH rt"
  then show "within_ceiling rt x"
    using stored_text_le[of rt x] by (simp add: within_ceiling_def)
qed

theorem encrypt_decrypt_within_ceiling_witness:
  "\<forall>from_object.
     encryptionKey database_new = None
     \<and> encryptData (runtime0 from_object) database_new [0x68, 0xD83D, 0xDE00, 0xE9, 0x20AC]
         = Inl NotInitialized
     \<and> decryptData (runtime0 from_object) database_new ''{}'' = Inl NotInitialized
     \<and> encryptionKey database0 \<noteq> None
     \<and> within_ceiling (runtime0 from_object) [0x68, 0xD83D, 0xDE00, 0xE9, 0x20AC]
     \<and> well_formed [0x68, 0xD83D, 0xDE00, 0xE9, 0x20AC]
     \<and> (\<exists>ct. encryptData (runtime0 from_object) database0 [0x68, 0xD83D, 0xDE00, 0xE9, 0x20AC] = Inr ct
            \<and> ct \<noteq> utf8_encode [0x68, 0xD83D, 0xDE00, 0xE9, 0x20AC]
            \<and> code_units ct \<noteq> map unat [0x68, 0xD83D, 0xDE00, 0xE9, 0x20AC :: 16 word]
            \<and> decryptData (runtime0 from_object) database0 ct = Inr [0x68, 0xD83D, 0xDE00, 0xE9, 0x20AC])
     \<and> \<not> within_ceiling ((runtime0 from_object)\<lparr>MAX_STRING_LENGTH := 10\<rparr>)
           [0x68, 0xD83D, 0xDE00, 0xE9, 0x20AC]
     \<and> encryptData ((runtime0 from_object)\<lparr>MAX_STRING_LENGTH := 10\<rparr>) database0
           [0x68, 0xD83D, 0xDE00, 0xE9, 0x20AC]
         = Inl FailedToEncrypt"
proof
  fix from_object
  let ?rt = "runtime0 from_object"
  let ?x = "[0x68, 0xD83D, 0xDE00, 0xE9, 0x20AC] :: utf16"
  have n: "encryptionKey database_new = None" by (simp add: database_new_def)
  have k: "encryptionKey database0 \<noteq> None" by (simp add: database0_def)
  have b: "4 * length ?x + 6 * length (toISOString_now ?rt) + 43 \<le> MAX_STRING_LENGTH ?rt"
    by (simp add: runtime0_def)
  have f: "well_formed ?x"
    by (simp add: well_formed_def surrogate_def high_surrogate_def low_surrogate_def)
  have s: "\<not> within_ceiling (?rt\<lparr>MAX_STRING_LENGTH := 10\<rparr>) ?x"
    by (simp add: within_ceiling_def stored_text_length)
  from encrypt_decrypt_within_ceiling[of database0 ?rt ?x "''{}''"] b
  have w: "within_ceiling ?rt ?x" by blast
  show "encryptionKey database_new = None
     \<and> encryptData ?rt database_new ?x = Inl NotInitialized
     \<and> decryptData ?rt database_new ''{}'' = Inl NotInitialized
     \<and> encryptionKey database0 \<noteq> None
     \<and> within_ceiling ?rt ?x
     \<and> well_formed ?x
     \<and> (\<exists>ct. encryptData ?rt database0 ?x = Inr ct
            \<and> ct \<noteq> utf8_encode ?x
            \<and> code_units ct \<noteq> map unat ?x
            \<and> decryptData ?rt database0 ct = Inr ?x)
     \<and> \<not> within_ceiling (?rt\<lparr>MAX_STRING_LENGTH := 10\<rparr>) ?x
     \<and> encryptData (?rt\<lparr>MAX_STRING_LENGTH := 10\<rparr>) database0 ?x = Inl FailedToEncrypt"
    using n k f s w
      encrypt_decrypt_within_ceiling[of database_new ?rt ?x "''{}''"]
      encrypt_decrypt_within_ceiling[of database0 ?rt ?x "''{}''"]
      encrypt_decrypt_within_ceiling[of database0 "?rt\<lparr>MAX_STRING_LENGTH := 10\<rparr>" ?x "''{}''"]
    by auto
qed

section \<open>The sanitizer redacts an API key\<close>

text \<open>
  C9. Sanitizing the line \<open>const apiKey = "sk-1234567890abcdef1234567890abcdef";\<close>
  reports \<open>sensitiveDataFound = true\<close>; the sanitized content is
  \<open>const [REDACTED_API_KEY];\<close>, which holds the typed placeholder and no longer holds
  the key.
\<close>

theorem sanitize_redacts_api_key:
  "sensitiveDataFound (fst (sanitizeContent ContentSanitizer_loaded api_key_line p))
   \<and> sanitizedContent (fst (sanitizeContent ContentSanitizer_loaded api_key_line p))
       = ''const [REDACTED_API_KEY];''
   \<and> includes_str (sanitizedContent (fst (sanitizeContent ContentSanitizer_loaded api_key_line p)))
         ''[REDACTED_API_KEY]''
   \<and> \<not> includes_str (sanitizedContent (fst (sanitizeContent ContentSanitizer_loaded api_key_line p)))
         ''sk-1234567890abcdef1234567890abcdef''
   \<and> includes_str api_key_line ''sk-1234567890abcdef1234567890abcdef''"
proof -
  have r: "fst (sanitizeContent ContentSanitizer_loaded api_key_line p)
           = \<lparr> sanitizedContent = ''const [REDACTED_API_KEY];'', sensitiveDataFound = True,
               maliciousPatterns = False, redactionCount = 1 \<rparr>"
    by (simp add: sanitize_api_key_line)
  have k: "includes_str api_key_line ''sk-1234567890abcdef1234567890abcdef''"
    by (simp add: api_key_line_def startsWith_def)
  have a: "includes_str ''const [REDACTED_API_KEY];'' ''[REDACTED_API_KEY]''"
    by (simp add: startsWith_def)
  have b: "\<not> includes_str ''const [REDACTED_API_KEY];'' ''sk-1234567890abcdef1234567890abcdef''"
    by (simp add: startsWith_def)
  show ?thesis unfolding r using k a b by simp
qed

section \<open>What a deployment that returns false has written\<close>

text \<open>
  C10 (as stated, refuted). The claim has every call that returns \<open>false\<close> leave the
  real project tree as it was. \<open>deployToRealFiles\<close> writes the real file in place, and
  \<open>writeFileSync\<close> opens it (creating or emptying it) before it writes. On a disk that
  stops the write of \<open>/proj/a.txt\<close> after one byte, the forced deployment of \<open>a.txt\<close>
  returns \<open>false\<close> and the real file, which held \<open>old\<close>, holds \<open>n\<close>; when the write of
  \<open>/proj/id_rsa.pem\<close> stops before the first byte, the deployment returns \<open>false\<close> and
  has created that file, empty.
\<close>

theorem deploy_false_after_partial_write:
  "fst (deployToRealFiles env_short fs0 manager0 ''a.txt'' True) = Inr False
   \<and> fs0 ''/proj/a.txt'' = Some (File ''old'')
   \<and> snd (deployToRealFiles env_short fs0 manager0 ''a.txt'' True) ''/proj/a.txt'' = Some (File ''n'')
   \<and> fst (deployToRealFiles env_short fs0 manager0 ''id_rsa.pem'' True) = Inr False
   \<and> fs0 ''/proj/id_rsa.pem'' = None
   \<and> snd (deployToRealFiles env_short fs0 manager0 ''id_rsa.pem'' True) ''/proj/id_rsa.pem'' = Some (File [])"
  by code_simp

text \<open>
  C10 (amended). \<open>deployToRealFiles\<close> never throws: for every input, every file system
  and every fault of the disk it resolves to a boolean. When the file is absent from
  the mirror, and whenever \<open>force\<close> is not set, it resolves to \<open>false\<close> and leaves the
  file system as it was. Whenever it resolves to \<open>false\<close>, either no file has been
  created or modified (directories may have been created), or the deployment was
  forced, the write of the real file stopped after \<open>k\<close> bytes, and that file holds the
  first \<open>k\<close> bytes of the text read from the mirror while every other file is as it
  was.
\<close>

theorem deploy_denied_writes_nothing:
  "(\<exists>b. fst (deployToRealFiles e fs m f force) = Inr b)
   \<and> (\<not> existsSync e fs (join [sandboxPath m, f])
        \<longrightarrow> deployToRealFiles e fs m f force = (Inr False, fs))
   \<and> (\<not> force \<longrightarrow> deployToRealFiles e fs m f force = (Inr False, fs))
   \<and> (fst (deployToRealFiles e fs m f force) = Inr False
        \<longrightarrow> files_of (snd (deployToRealFiles e fs m f force)) = files_of fs
            \<or> (\<exists>content k. force
                  \<and> readFileSync e fs (join [sandboxPath m, f]) = Inr content
                  \<and> fault e (resolve (cwd e) (join [projectPath m, f])) = Some (Short k)
                  \<and> files_of (snd (deployToRealFiles e fs m f force))
                      = (files_of fs)(resolve (cwd e) (join [projectPath m, f]) \<mapsto> take k content)))"
proof (intro conjI impI)
  show "\<exists>b. fst (deployToRealFiles e fs m f force) = Inr b"
    by (cases "deploy_attempt e fs m f force"; cases "fst (deploy_attempt e fs m f force)")
       (auto simp: deployToRealFiles_def)
next
  assume "\<not> existsSync e fs (join [sandboxPath m, f])"
  then show "deployToRealFiles e fs m f force = (Inr False, fs)"
    by (simp add: deployToRealFiles_def deploy_attempt_def Let_def)
next
  assume "\<not> force"
  then show "deployToRealFiles e fs m f force = (Inr False, fs)"
    using gate_denies_scored[of f e fs m "Some f"]
    by (simp add: deployToRealFiles_def deploy_attempt_def Let_def)
next
  assume "fst (deployToRealFiles e fs m f force) = Inr False"
  then show "files_of (snd (deployToRealFiles e fs m f force)) = files_of fs
            \<or> (\<exists>content k. force
                  \<and> readFileSync e fs (join [sandboxPath m, f]) = Inr content
                  \<and> fault e (resolve (cwd e) (join [projectPath m, f])) = Some (Short k)
                  \<and> files_of (snd (deployToRealFiles e fs m f force))
                      = (files_of fs)(resolve (cwd e) (join [projectPath m, f]) \<mapsto> take k content))"
    using deploy_outcome[of e fs m f force] by auto
qed

theorem deploy_denied_writes_nothing_witness:
  "\<not> existsSync env0 fs0 (join [sandboxPath manager0, ''missing.ts''])
   \<and> deployToRealFiles env0 fs0 manager0 ''missing.ts'' True = (Inr False, fs0)
   \<and> deployToRealFiles env0 fs0 manager0 ''a.txt'' False = (Inr False, fs0)
   \<and> fst (deployToRealFiles env0 fs0 manager0 ''a.txt'' True) = Inr True
   \<and> fst (deployToRealFiles env_refused fs0 manager0 ''a.txt'' True) = Inr False
   \<and> files_of (snd (deployToRealFiles env_refused fs0 manager0 ''a.txt'' True)) = files_of fs0
   \<and> fst (deployToRealFiles env_short fs0 manager0 ''a.txt'' True) = Inr False
   \<and> files_of (snd (deployToRealFiles env_short fs0 manager0 ''a.txt'' True))
       = (files_of fs0)(''/proj/a.txt'' \<mapsto> ''n'')"
proof -
  have differs: "files_of (snd (deployToRealFiles env_short fs0 manager0 ''a.txt'' True))
                 \<noteq> files_of fs0"
  proof
    assume "files_of (snd (deployToRealFiles env_short fs0 manager0 ''a.txt'' True)) = files_of fs0"
    then have "files_of (snd (deployToRealFiles env_short fs0 manager0 ''a.txt'' True)) ''/proj/a.txt''
               = files_of fs0 ''/proj/a.txt''" by simp
    then show False by (simp add: files_of_def a_txt_deployed)
  qed
  show ?thesis
    using deploy_denied_writes_nothing[of env0 fs0 manager0 "''missing.ts''" True]
      deploy_denied_writes_nothing[of env0 fs0 manager0 "''a.txt''" False]
      deploy_denied_writes_nothing[of env_refused fs0 manager0 "''a.txt''" True]
      deploy_denied_writes_nothing[of env_short fs0 manager0 "''a.txt''" True]
      differs
    by (auto simp: missing_ts_absent a_txt_deployed a_txt_paths a_txt_read a_txt_faults)
qed

end
